theory Spec2Isabelle
  imports Main "HOL-Library.AList" "HOL-Library.Sublist" "HOL-Library.Word"
begin

section \<open>Strings: the functions of Go's \<open>strings\<close> package that standard.go calls\<close>

text \<open>
  A Go string is a byte sequence; it is modelled as \<open>string\<close> (a \<open>char list\<close>, one
  \<open>char\<close> per byte).  All patterns of standard.go are built from ASCII literals and
  from classes that are either ASCII-only or the complement of one ASCII character, so
  matching bytes and matching UTF-8 runes agree on well-formed text.
\<close>

text \<open>\<open>strings.Contains(s, substr)\<close>.\<close>

fun Contains :: "string \<Rightarrow> string \<Rightarrow> bool" where
  "Contains [] sub = (sub = [])"
| "Contains (c # s) sub = (prefix sub (c # s) \<or> Contains s sub)"

text \<open>\<open>strings.Replace(s, old, new, 1)\<close>: the first occurrence only.\<close>

fun Replace1 :: "string \<Rightarrow> string \<Rightarrow> string \<Rightarrow> string" where
  "Replace1 [] old new = (if old = [] then new else [])"
| "Replace1 (c # s) old new =
     (if prefix old (c # s) then new @ drop (length old) (c # s)
      else c # Replace1 s old new)"

text \<open>
  \<open>strings.Replace(s, old, new, -1)\<close>: every non-overlapping occurrence, left to right.
  For an empty \<open>old\<close> Go inserts \<open>new\<close> at every position; standard.go never passes an
  empty \<open>old\<close> (it is always the text of a pattern match, which contains a quote).
\<close>

function ReplaceAll :: "string \<Rightarrow> string \<Rightarrow> string \<Rightarrow> string" where
  "ReplaceAll s old new =
     (if old = [] then new @ concat (map (\<lambda>c. c # new) s)
      else (case s of
              [] \<Rightarrow> []
            | c # t \<Rightarrow>
                if prefix old s then new @ ReplaceAll (drop (length old) s) old new
                else c # ReplaceAll t old new))"
  by pat_completeness auto
termination
  by (relation "measure (\<lambda>(s, old, new). length s)") auto

declare ReplaceAll.simps [simp del]

text \<open>\<open>fmt.Sprintf("%v", n)\<close> for an unsigned integer: its decimal digits.\<close>

definition digit_char :: "nat \<Rightarrow> char" where
  "digit_char d = char_of (48 + d)"

function show_nat :: "nat \<Rightarrow> string" where
  "show_nat n = (if n < 10 then [digit_char n] else show_nat (n div 10) @ [digit_char (n mod 10)])"
  by pat_completeness auto
termination
  by (relation "measure id") auto

declare show_nat.simps [simp del]

section \<open>The tag scanner: Go regular expressions\<close>

text \<open>
  Go's \<open>regexp\<close> package returns, at the leftmost position where the pattern matches,
  the match that a backtracking search prefers (greedy operators try the longest
  repetition first, lazy ones the shortest).  The patterns of \<open>InitRegexp\<close> use string
  literals, the classes \<open>[\s]\<close>, \<open>[^c]\<close> and (under \<open>(?s)\<close>) \<open>.\<close>, repetition of a
  class, optional groups and capture groups; \<open>atom\<close> has exactly these, and a pattern is
  the list of its atoms in order.  \<open>GrpOpen k\<close> and \<open>GrpClose k\<close> are the parentheses of
  capture group \<open>k\<close>.
\<close>

datatype cls = Space | NotChar char | AnyChar

fun in_cls :: "cls \<Rightarrow> char \<Rightarrow> bool" where
  "in_cls Space c = (c = CHR 0x09 \<or> c = CHR 0x0A \<or> c = CHR 0x0C \<or> c = CHR 0x0D \<or> c = CHR '' '')"
| "in_cls (NotChar x) c = (c \<noteq> x)"
| "in_cls AnyChar c = True"

datatype atom =
    Lit string
  | Star cls
  | Plus cls
  | Lazy cls
  | Opt "atom list"
  | GrpOpen nat
  | GrpClose nat

fun asize :: "atom \<Rightarrow> nat" where
  "asize (Plus k) = 2"
| "asize (Opt g) = Suc (sum_list (map asize g))"
| "asize a = 1"

type_synonym caps = "(nat \<times> string) list"

text \<open>
  \<open>rmatch p s caps\<close> matches the pattern \<open>p\<close> at the start of \<open>s\<close> and returns the text
  left after the preferred match with the capture groups, or \<open>None\<close>.  While group \<open>k\<close>
  is open, \<open>caps\<close> holds the text that was left where it opened; \<open>GrpClose\<close> replaces it by
  the text the group consumed.
\<close>

function rmatch :: "atom list \<Rightarrow> string \<Rightarrow> caps \<Rightarrow> (string \<times> caps) option" where
  "rmatch [] s caps = Some (s, caps)"
| "rmatch (Lit l # p) s caps =
     (if prefix l s then rmatch p (drop (length l) s) caps else None)"
| "rmatch (Plus k # p) [] caps = None"
| "rmatch (Plus k # p) (c # s) caps =
     (if in_cls k c then rmatch (Star k # p) s caps else None)"
| "rmatch (Star k # p) [] caps = rmatch p [] caps"
| "rmatch (Star k # p) (c # s) caps =
     (if in_cls k c
      then (case rmatch (Star k # p) s caps of
              Some r \<Rightarrow> Some r
            | None \<Rightarrow> rmatch p (c # s) caps)
      else rmatch p (c # s) caps)"
| "rmatch (Lazy k # p) [] caps = rmatch p [] caps"
| "rmatch (Lazy k # p) (c # s) caps =
     (case rmatch p (c # s) caps of
        Some r \<Rightarrow> Some r
      | None \<Rightarrow> if in_cls k c then rmatch (Lazy k # p) s caps else None)"
| "rmatch (Opt g # p) s caps =
     (case rmatch (g @ p) s caps of
        Some r \<Rightarrow> Some r
      | None \<Rightarrow> rmatch p s caps)"
| "rmatch (GrpOpen k # p) s caps = rmatch p s (AList.update k s caps)"
| "rmatch (GrpClose k # p) s caps =
     (case map_of caps k of
        None \<Rightarrow> rmatch p s caps
      | Some s0 \<Rightarrow> rmatch p s (AList.update k (take (length s0 - length s) s0) caps))"
  by pat_completeness auto
termination
  by (relation "measures [\<lambda>(p, s, caps). sum_list (map asize p), \<lambda>(p, s, caps). length s]") auto

text \<open>The value of capture group \<open>k\<close>; a group that took no part in the match is \<open>""\<close>.\<close>

definition cap :: "caps \<Rightarrow> nat \<Rightarrow> string" where
  "cap caps k = (case map_of caps k of None \<Rightarrow> [] | Some v \<Rightarrow> v)"

text \<open>
  One entry of \<open>FindAllStringSubmatch\<close>: the matched text \<open>v[0]\<close> and the groups \<open>v[1]\<close>,
  \<open>v[2]\<close> (no pattern here has more than two groups).
\<close>

type_synonym submatch = "string \<times> string \<times> string"

text \<open>
  \<open>rfind p pre s\<close>: the leftmost match of \<open>p\<close> in \<open>s\<close>, as the text skipped before it
  (\<open>pre\<close> collects it, reversed), the submatch and the text after it.
\<close>

fun rfind :: "atom list \<Rightarrow> string \<Rightarrow> string \<Rightarrow> (string \<times> submatch \<times> string) option" where
  "rfind p pre [] =
     (case rmatch p [] [] of
        None \<Rightarrow> None
      | Some (rest, caps) \<Rightarrow> Some (rev pre, ([], cap caps 1, cap caps 2), rest))"
| "rfind p pre (c # s) =
     (case rmatch p (c # s) [] of
        None \<Rightarrow> rfind p (c # pre) s
      | Some (rest, caps) \<Rightarrow>
          Some (rev pre, (take (length (c # s) - length rest) (c # s), cap caps 1, cap caps 2), rest))"

lemma rmatch_length: "rmatch p s caps = Some (rest, caps') \<Longrightarrow> length rest \<le> length s"
proof (induction p s caps arbitrary: rest caps' rule: rmatch.induct)
  case (1 s caps)
  then show ?case by simp
next
  case (2 l p s caps)
  then have "rmatch p (drop (length l) s) caps = Some (rest, caps')" and "prefix l s"
    by (auto split: if_splits)
  with 2 have "length rest \<le> length (drop (length l) s)" by blast
  then show ?case by simp
next
  case (3 k p caps)
  then show ?case by simp
next
  case (4 k p c s caps)
  from 4(2) have a: "in_cls k c" and b: "rmatch (Star k # p) s caps = Some (rest, caps')"
    by (simp_all split: if_splits)
  from 4(1) [OF a b] show ?case by simp
next
  case (5 k p caps)
  from 5(2) have "rmatch p [] caps = Some (rest, caps')" by simp
  from 5(1) [OF this] show ?case .
next
  case (6 k p c s caps)
  show ?case
  proof (cases "in_cls k c")
    case True
    show ?thesis
    proof (cases "rmatch (Star k # p) s caps")
      case None
      with 6(4) True have "rmatch p (c # s) caps = Some (rest, caps')" by simp
      from 6(2) [OF True None this] show ?thesis .
    next
      case (Some r)
      with 6(4) True have "rmatch (Star k # p) s caps = Some (rest, caps')" by simp
      from 6(1) [OF True this] show ?thesis by simp
    qed
  next
    case False
    with 6(4) have "rmatch p (c # s) caps = Some (rest, caps')" by simp
    from 6(3) [OF False this] show ?thesis .
  qed
next
  case (7 k p caps)
  from 7(2) have "rmatch p [] caps = Some (rest, caps')" by simp
  from 7(1) [OF this] show ?case .
next
  case (8 k p c s caps)
  show ?case
  proof (cases "rmatch p (c # s) caps")
    case None
    with 8(3) have a: "in_cls k c" and b: "rmatch (Lazy k # p) s caps = Some (rest, caps')"
      by (simp_all split: if_splits)
    from 8(2) [OF None a b] show ?thesis by simp
  next
    case (Some r)
    with 8(3) have "rmatch p (c # s) caps = Some (rest, caps')" by simp
    from 8(1) [OF this] show ?thesis .
  qed
next
  case (9 g p s caps)
  show ?case
  proof (cases "rmatch (g @ p) s caps")
    case None
    with 9(3) have "rmatch p s caps = Some (rest, caps')" by simp
    from 9(2) [OF None this] show ?thesis .
  next
    case (Some r)
    with 9(3) have "rmatch (g @ p) s caps = Some (rest, caps')" by simp
    from 9(1) [OF this] show ?thesis .
  qed
next
  case (10 k p s caps)
  from 10(2) have "rmatch p s (AList.update k s caps) = Some (rest, caps')" by simp
  from 10(1) [OF this] show ?case .
next
  case (11 k p s caps)
  show ?case
  proof (cases "map_of caps k")
    case None
    with 11(3) have "rmatch p s caps = Some (rest, caps')" by simp
    from 11(1) [OF None this] show ?thesis .
  next
    case (Some s0)
    with 11(3) have "rmatch p s (AList.update k (take (length s0 - length s) s0) caps) = Some (rest, caps')" by simp
    from 11(2) [OF Some this] show ?thesis .
  qed
qed

lemma rfind_length:
  "rfind p pre s = Some (b, (m, g1, g2), rest) \<Longrightarrow> length rest + length m \<le> length s"
proof (induction s arbitrary: pre)
  case Nil
  then show ?case by (auto split: option.splits dest: rmatch_length)
next
  case (Cons c s)
  show ?case
  proof (cases "rmatch p (c # s) []")
    case None
    with Cons show ?thesis by fastforce
  next
    case (Some r)
    obtain rest' caps where r: "r = (rest', caps)" by (cases r)
    from rmatch_length Some r have "length rest' \<le> length (c # s)" by blast
    with Cons.prems Some r show ?thesis by auto
  qed
qed

lemma rfind_shorter:
  assumes "rfind p pre s = Some (b, v, rest)" and "fst v \<noteq> []"
  shows "length rest < length s"
proof -
  obtain m g1 g2 where v: "v = (m, g1, g2)" by (cases v)
  from assms(1) v have "length rest + length m \<le> length s" by (simp add: rfind_length)
  with assms(2) v show ?thesis by (cases m) auto
qed

text \<open>
  All successive non-overlapping matches of a pattern in a text: each with the text
  between the previous match and it, and at the end the text after the last match.  No
  pattern of \<open>InitRegexp\<close> can match the empty text (each contains a quote character);
  the scan stops at an empty match.
\<close>

function rsplit :: "atom list \<Rightarrow> string \<Rightarrow> (string \<times> submatch) list \<times> string" where
  "rsplit p s =
     (case rfind p [] s of
        None \<Rightarrow> ([], s)
      | Some (b, v, rest) \<Rightarrow>
          if fst v = [] then ([(b, v)], rest)
          else (case rsplit p rest of (ms, e) \<Rightarrow> ((b, v) # ms, e)))"
  by pat_completeness auto
termination
  apply (relation "measure (\<lambda>(p, s). length s)")
   apply simp
  apply (auto dest!: rfind_shorter)
  done

declare rsplit.simps [simp del]

text \<open>
  \<open>re.FindAllStringSubmatch(s, -1)\<close> and \<open>re.ReplaceAllStringFunc(s, f)\<close> for a pattern
  without \<open>^\<close>; \<open>ReplaceAllString(s, "")\<close> is \<open>ReplaceAllStringFunc\<close> with the constant
  empty text.
\<close>

definition FindAllStringSubmatch :: "atom list \<Rightarrow> string \<Rightarrow> submatch list" where
  "FindAllStringSubmatch p s = map snd (fst (rsplit p s))"

definition ReplaceAllStringFunc :: "atom list \<Rightarrow> string \<Rightarrow> (string \<Rightarrow> string) \<Rightarrow> string" where
  "ReplaceAllStringFunc p s f =
     (case rsplit p s of (ms, e) \<Rightarrow> concat (map (\<lambda>(b, v). b @ f (fst v)) ms) @ e)"

text \<open>
  \<open>re.FindAllStringSubmatch(s, 1)\<close> for a pattern that begins with \<open>^\<close>: the pattern can
  match at the start of the text only, so there is at most one match.
\<close>

definition FindStartSubmatch :: "atom list \<Rightarrow> string \<Rightarrow> submatch list" where
  "FindStartSubmatch p s =
     (case rmatch p s [] of
        None \<Rightarrow> []
      | Some (rest, caps) \<Rightarrow> [(take (length s - length rest) s, cap caps 1, cap caps 2)])"

text \<open>\<open>bytes.TrimPrefix\<close> and \<open>bytes.TrimSuffix\<close>.\<close>

definition TrimPrefix :: "string \<Rightarrow> string \<Rightarrow> string" where
  "TrimPrefix s pre = (if prefix pre s then drop (length pre) s else s)"

definition TrimSuffix :: "string \<Rightarrow> string \<Rightarrow> string" where
  "TrimSuffix s suf = (if suffix suf s then take (length s - length suf) s else s)"

section \<open>The engine: configuration and patterns\<close>

text \<open>
  The configuration fields of the struct \<open>Standard\<close>.  Three things the struct reaches
  through other packages are fields here, because their code is not part of the
  sources at hand: \<open>pathJoin\<close> stands for \<open>filepath.Join\<close>, \<open>CleanTemplateName\<close> for
  \<open>driver.CleanTemplateName\<close>, and \<open>compact\<close> for what \<open>strip\<close> does to the body of one
  Strip region through \<open>driver.ReplacePRE\<close>, \<open>driver.FE\<close>, \<open>driver.RemoveMultiCRLF\<close>,
  \<open>bytes.TrimSpace\<close> and \<open>driver.RecoveryPRE\<close>.  The request context is fixed during
  one call, so the hook \<open>tmplPathFixer\<close> is a function of the path alone.
\<close>

record Standard =
  TemplateDir :: string
  DelimLeft :: string
  DelimRight :: string
  IncludeTag :: string
  FunctionTag :: string
  ExtendTag :: string
  BlockTag :: string
  SuperTag :: string
  StripTag :: string
  Ext :: string
  debug :: bool
  tmplPathFixer :: "(string \<Rightarrow> string) option"
  contentProcessors :: "(string \<Rightarrow> string) list"
  getFuncs :: "(string \<times> nat) list option"
  pathJoin :: "string \<Rightarrow> string \<Rightarrow> string"
  CleanTemplateName :: "string \<Rightarrow> string"
  compact :: "string \<Rightarrow> string"

definition Tag :: "Standard \<Rightarrow> string \<Rightarrow> string" where
  "Tag self content = DelimLeft self @ content @ DelimRight self"

definition TmplPath :: "Standard \<Rightarrow> string \<Rightarrow> string" where
  "TmplPath self p =
     (case tmplPathFixer self of
        Some f \<Rightarrow> f p
      | None \<Rightarrow> pathJoin self (TemplateDir self) p)"

text \<open>
  The patterns of \<open>InitRegexp\<close>.  The delimiters are quoted there, so they match
  literally; the tag keywords are inserted as they are and match literally as long as
  they are plain words, as the defaults are.  \<open>DelimRight[0:1]\<close> needs a non-empty right
  delimiter (\<open>InitRegexp\<close> panics otherwise).
\<close>

definition callTail :: "Standard \<Rightarrow> atom list" where
  "callTail self =
     [Plus Space, Lit ''\"'', GrpOpen 1, Plus (NotChar CHR ''\"''), GrpClose 1, Lit ''\"'',
      Opt [Plus Space, GrpOpen 2, Plus (NotChar (hd (DelimRight self))), GrpClose 2],
      Star Space, Opt [Lit ''/''], Lit (DelimRight self)]"

definition incTagRegex :: "Standard \<Rightarrow> atom list" where
  "incTagRegex self = Lit (DelimLeft self) # Lit (IncludeTag self) # callTail self"

definition funcTagRegex :: "Standard \<Rightarrow> atom list" where
  "funcTagRegex self = Lit (DelimLeft self) # Lit (FunctionTag self) # callTail self"

text \<open>\<open>extTagRegex\<close> begins with \<open>^[\s]*\<close>; it is used through \<open>FindStartSubmatch\<close>.\<close>

definition extTagRegex :: "Standard \<Rightarrow> atom list" where
  "extTagRegex self = Star Space # Lit (DelimLeft self) # Lit (ExtendTag self) # callTail self"

definition blkTagRegex :: "Standard \<Rightarrow> atom list" where
  "blkTagRegex self =
     [Lit (DelimLeft self), Lit (BlockTag self), Plus Space,
      Lit ''\"'', GrpOpen 1, Plus (NotChar CHR ''\"''), GrpClose 1, Lit ''\"'', Star Space,
      Lit (DelimRight self), GrpOpen 2, Lazy AnyChar, GrpClose 2,
      Lit (DelimLeft self), Lit ''/'', Lit (BlockTag self), Lit (DelimRight self)]"

definition rplTagRegex :: "Standard \<Rightarrow> atom list" where
  "rplTagRegex self =
     [Lit (DelimLeft self), Lit (BlockTag self), Plus Space,
      Lit ''\"'', GrpOpen 1, Plus (NotChar CHR ''\"''), GrpClose 1, Lit ''\"'', Star Space,
      Lit ''/'', Lit (DelimRight self)]"

definition stripTagRegex :: "Standard \<Rightarrow> atom list" where
  "stripTagRegex self =
     [Lit (DelimLeft self), Lit (StripTag self), Lit (DelimRight self),
      GrpOpen 1, Lazy AnyChar, GrpClose 1,
      Lit (DelimLeft self), Lit ''/'', Lit (StripTag self), Lit (DelimRight self)]"

section \<open>The raw content loader\<close>

text \<open>
  The content source (\<open>TemplateMgr.GetTemplate\<close>, or \<open>ioutil.ReadFile\<close> without a
  manager): finitely many readable files, and for every other path the text of the
  error the read returns.
\<close>

record source =
  files :: "(string \<times> string) list"
  read_error :: "string \<Rightarrow> string"

definition GetTemplate :: "source \<Rightarrow> string \<Rightarrow> string + string" where
  "GetTemplate src p =
     (case map_of (files src) p of
        Some b \<Rightarrow> Inr b
      | None \<Rightarrow> Inl (read_error src p))"

definition strip :: "Standard \<Rightarrow> string \<Rightarrow> string" where
  "strip self src =
     (if debug self then
        ReplaceAll
          (ReplaceAll src (DelimLeft self @ StripTag self @ DelimRight self) [])
          (DelimLeft self @ ''/'' @ StripTag self @ DelimRight self) []
      else
        ReplaceAllStringFunc (stripTagRegex self) src
          (\<lambda>b. compact self
             (TrimSuffix
                (TrimPrefix b (DelimLeft self @ StripTag self @ DelimRight self))
                (DelimLeft self @ ''/'' @ StripTag self @ DelimRight self))))"

definition preprocess :: "Standard \<Rightarrow> string \<Rightarrow> string" where
  "preprocess self b = strip self (foldl (\<lambda>b fn. fn b) b (contentProcessors self))"

definition RawContent :: "Standard \<Rightarrow> source \<Rightarrow> string \<Rightarrow> string + string" where
  "RawContent self src tmpl =
     (case GetTemplate src tmpl of
        Inl e \<Rightarrow> Inl e
      | Inr b \<Rightarrow> Inr (preprocess self b))"

lemma RawContent_readable:
  "RawContent self src p = Inr b \<Longrightarrow> p \<in> fst ` set (files src)"
  by (auto simp: RawContent_def GetTemplate_def split: option.splits sum.splits
      dest: map_of_SomeD intro: rev_image_eqI)

section \<open>The inclusion resolver\<close>

text \<open>
  A Go \<open>map[string]string\<close> (\<open>subcs\<close>, \<open>extcs\<close>, \<open>clips\<close>) is an association list with
  distinct keys: \<open>map_of\<close> looks a key up, \<open>AList.update\<close> stores a value.  Go leaves
  the order of \<open>range\<close> over a map open; where standard.go ranges over one, the model
  takes the entries in the order of the list.

  The functions that read the content source also carry the list of the paths they
  asked it for, in order (\<open>rd\<close>): a record of the effect, not a variable of the program.
\<close>

type_synonym pool = "(string \<times> string) list"

definition inc_file :: "Standard \<Rightarrow> submatch \<Rightarrow> string" where
  "inc_file self v = TmplPath self (fst (snd v) @ Ext self)"

definition inc_ref :: "Standard \<Rightarrow> submatch \<Rightarrow> string" where
  "inc_ref self v =
     Tag self (''template \"'' @ CleanTemplateName self (inc_file self v) @ ''\" '' @
               (if snd (snd v) = [] then ''.'' else snd (snd v)))"

text \<open>
  \<open>ContainsSubTpl\<close>; \<open>inc_loop\<close> is its \<open>for _, v := range matches\<close> loop.  The \<open>return\<close>
  inside the loop ends the whole call with the error text as the content.
\<close>

function ContainsSubTpl ::
    "Standard \<Rightarrow> source \<Rightarrow> string \<Rightarrow> pool \<Rightarrow> string list \<Rightarrow> string \<times> pool \<times> string list"
  and inc_loop ::
    "Standard \<Rightarrow> source \<Rightarrow> submatch list \<Rightarrow> string \<Rightarrow> pool \<Rightarrow> string list \<Rightarrow> string \<times> pool \<times> string list"
where
  "ContainsSubTpl self src content subcs rd =
     inc_loop self src (FindAllStringSubmatch (incTagRegex self) content) content subcs rd"
| "inc_loop self src [] content subcs rd = (content, subcs, rd)"
| "inc_loop self src (v # vs) content subcs rd =
     (case map_of subcs (inc_file self v) of
        Some x \<Rightarrow> inc_loop self src vs (ReplaceAll content (fst v) (inc_ref self v)) subcs rd
      | None \<Rightarrow>
          (case RawContent self src (inc_file self v) of
             Inl err \<Rightarrow>
               (''RenderTemplate '' @ inc_file self v @ '' read err: '' @ err,
                subcs, rd @ [inc_file self v])
           | Inr str \<Rightarrow>
               (case ContainsSubTpl self src str (AList.update (inc_file self v) [] subcs)
                       (rd @ [inc_file self v]) of
                  (str', subcs', rd') \<Rightarrow>
                    inc_loop self src vs (ReplaceAll content (fst v) (inc_ref self v))
                      (AList.update (inc_file self v) str' subcs') rd')))"
  by pat_completeness auto


text \<open>
  The recursion ends because the content source has finitely many readable files and
  every recursive call is made with one more of them registered in the pool.
\<close>

lemma pool_mono_p:
  "ContainsSubTpl_inc_loop_dom (Inl (self, src, content, subcs, rd)) \<Longrightarrow>
     fst ` set subcs \<subseteq> fst ` set (fst (snd (ContainsSubTpl self src content subcs rd)))"
  "ContainsSubTpl_inc_loop_dom (Inr (self, src, vs, content, subcs, rd)) \<Longrightarrow>
     fst ` set subcs \<subseteq> fst ` set (fst (snd (inc_loop self src vs content subcs rd)))"
proof (induct rule: ContainsSubTpl_inc_loop.pinduct)
  case (1 self src content subcs rd)
  then show ?case by (simp add: ContainsSubTpl.psimps)
next
  case (2 self src content subcs rd)
  then show ?case by (simp add: inc_loop.psimps)
next
  case (3 self src v vs content subcs rd)
  show ?case
  proof (cases "map_of subcs (inc_file self v)")
    case (Some x)
    with 3(1) 3(4) [OF Some] show ?thesis by (simp add: inc_loop.psimps)
  next
    case None
    show ?thesis
    proof (cases "RawContent self src (inc_file self v)")
      case (Inl err)
      with None 3(1) show ?thesis by (simp add: inc_loop.psimps)
    next
      case (Inr str)
      obtain str' subcs' rd' where r: "ContainsSubTpl self src str (AList.update (inc_file self v) [] subcs) (rd @ [inc_file self v]) = (str', subcs', rd')"
        by (cases "ContainsSubTpl self src str (AList.update (inc_file self v) [] subcs) (rd @ [inc_file self v])") auto
      from 3(2) [OF None Inr] r have a: "fst ` set (AList.update (inc_file self v) [] subcs) \<subseteq> fst ` set subcs'" by simp
      from 3(3) [OF None Inr r [symmetric] refl] 
      have b: "fst ` set (AList.update (inc_file self v) str' subcs') \<subseteq> fst ` set (fst (snd (inc_loop self src vs (ReplaceAll content (fst v) (inc_ref self v)) (AList.update (inc_file self v) str' subcs') rd')))" .
      from a b have "fst ` set subcs \<subseteq> fst ` set (fst (snd (inc_loop self src vs (ReplaceAll content (fst v) (inc_ref self v)) (AList.update (inc_file self v) str' subcs') rd')))"
        by (auto simp: AList.dom_update)
      with None Inr r 3(1) show ?thesis by (simp add: inc_loop.psimps)
    qed
  qed
qed

lemma inc_dom_all: "All ContainsSubTpl_inc_loop_dom"
proof (relation "inv_image (less_than <*lex*> less_than <*lex*> less_than)
    (\<lambda>x. case x of
       Inl (self, src, content, subcs, rd) \<Rightarrow>
         (card (fst ` set (files src) - fst ` set subcs), Suc 0, 0)
     | Inr (self, src, vs, content, subcs, rd) \<Rightarrow>
         (card (fst ` set (files src) - fst ` set subcs), 0, length vs))", goal_cases)
  case 1
  show ?case by (intro wf_inv_image wf_lex_prod wf_less_than)
next
  case (2 self src content subcs rd)
  show ?case by simp
next
  case (3 self src v vs content subcs rd b)
  let ?f = "inc_file self v"
  from 3(2) have "?f \<in> fst ` set (files src)" by (rule RawContent_readable)
  moreover from 3(1) have "?f \<notin> fst ` set subcs" by (simp add: map_of_eq_None_iff)
  ultimately have "fst ` set (files src) - fst ` set (AList.update ?f [] subcs)
      \<subset> fst ` set (files src) - fst ` set subcs"
    by (auto simp: AList.dom_update)
  then have "card (fst ` set (files src) - fst ` set (AList.update ?f [] subcs))
      < card (fst ` set (files src) - fst ` set subcs)"
    by (intro psubset_card_mono) auto
  then show ?case by simp
next
  case (4 self src v vs content subcs rd b x y xa ya)
  let ?f = "inc_file self v"
  from pool_mono_p(1) [OF 4(5)] 4(3,4)
  have "fst ` set (AList.update ?f [] subcs) \<subseteq> fst ` set xa"
    by (metis fst_conv snd_conv)
  then have "fst ` set (files src) - fst ` set (AList.update ?f x xa)
      \<subseteq> fst ` set (files src) - fst ` set subcs"
    by (auto simp: AList.dom_update)
  then have "card (fst ` set (files src) - fst ` set (AList.update ?f x xa))
      \<le> card (fst ` set (files src) - fst ` set subcs)"
    by (intro card_mono) auto
  then show ?case by auto
next
  case (5 self src v vs content subcs rd x2)
  show ?case by simp
qed

termination ContainsSubTpl
  by (rule inc_dom_all)

declare ContainsSubTpl.simps [simp del]

section \<open>The function clip resolver\<close>

text \<open>
  The rendering context: the per-call function map \<open>Funcs()\<close> (a function value is
  opaque, a number stands for it) and \<open>GetFunc\<close>, which gives the callback registered
  under a name when it has the type \<open>func(string, string) string\<close>.
\<close>

record ctx =
  Funcs :: "(string \<times> nat) list"
  GetFunc :: "string \<Rightarrow> (string \<Rightarrow> string \<Rightarrow> string) option"

text \<open>One invocation of a callback: its name and its two arguments.\<close>

type_synonym call = "string \<times> string \<times> string"

definition clip_key :: "submatch \<Rightarrow> string" where
  "clip_key v = fst (snd v) @ '':'' @ snd (snd v)"

text \<open>A Go map read \<open>clips[key]\<close>: the empty text for an absent key.\<close>

definition map_get :: "pool \<Rightarrow> string \<Rightarrow> string" where
  "map_get m k = (case map_of m k of None \<Rightarrow> [] | Some v \<Rightarrow> v)"

text \<open>
  \<open>ContainsFunctionResult\<close>; \<open>cfr_loop\<close> is its loop.  \<open>calls\<close> records the callback
  invocations in order.
\<close>

fun cfr_loop ::
  "ctx \<Rightarrow> string \<Rightarrow> submatch list \<Rightarrow> string \<Rightarrow> pool \<Rightarrow> call list \<Rightarrow> string \<times> pool \<times> call list"
where
  "cfr_loop c tmplOriginalName [] content clips calls = (content, clips, calls)"
| "cfr_loop c tmplOriginalName (v # vs) content clips calls =
     (case map_of clips (clip_key v) of
        Some x \<Rightarrow>
          cfr_loop c tmplOriginalName vs
            (ReplaceAll content (fst v) (map_get clips (clip_key v))) clips calls
      | None \<Rightarrow>
          (case GetFunc c (fst (snd v)) of
             Some fn \<Rightarrow>
               cfr_loop c tmplOriginalName vs
                 (ReplaceAll content (fst v)
                    (map_get (AList.update (clip_key v) (fn tmplOriginalName (snd (snd v))) clips)
                       (clip_key v)))
                 (AList.update (clip_key v) (fn tmplOriginalName (snd (snd v))) clips)
                 (calls @ [(fst (snd v), tmplOriginalName, snd (snd v))])
           | None \<Rightarrow>
               cfr_loop c tmplOriginalName vs
                 (ReplaceAll content (fst v) (map_get (AList.update (clip_key v) [] clips) (clip_key v)))
                 (AList.update (clip_key v) [] clips) calls))"

definition ContainsFunctionResult ::
  "Standard \<Rightarrow> ctx \<Rightarrow> string \<Rightarrow> string \<Rightarrow> pool \<Rightarrow> call list \<Rightarrow> string \<times> pool \<times> call list"
where
  "ContainsFunctionResult self c tmplOriginalName content clips calls =
     cfr_loop c tmplOriginalName (FindAllStringSubmatch (funcTagRegex self) content)
       content clips calls"

section \<open>The extend/block resolver\<close>

text \<open>\<open>ParseBlock\<close>; \<open>blk_loop\<close> is its loop.\<close>

fun blk_loop ::
  "Standard \<Rightarrow> source \<Rightarrow> submatch list \<Rightarrow> pool \<Rightarrow> pool \<Rightarrow> string list \<Rightarrow> pool \<times> pool \<times> string list"
where
  "blk_loop self src [] subcs extcs rd = (subcs, extcs, rd)"
| "blk_loop self src (v # vs) subcs extcs rd =
     (case ContainsSubTpl self src (snd (snd v)) subcs rd of
        (c, subcs', rd') \<Rightarrow>
          blk_loop self src vs subcs' (AList.update (fst (snd v)) c extcs) rd')"

definition ParseBlock ::
  "Standard \<Rightarrow> source \<Rightarrow> string \<Rightarrow> pool \<Rightarrow> pool \<Rightarrow> string list \<Rightarrow> pool \<times> pool \<times> string list"
where
  "ParseBlock self src content subcs extcs rd =
     blk_loop self src (FindAllStringSubmatch (blkTagRegex self) content) subcs extcs rd"

text \<open>
  The variables of \<open>ParseExtend\<close> that its loop over the Block occurrences changes:
  \<open>content\<close>, \<open>extcs\<close>, \<open>rec\<close> (a \<open>map[string]uint8\<close>), \<open>sup\<close>, \<open>subcs\<close>, and the record of
  the reads.
\<close>

record xstate =
  x_content :: string
  x_extcs :: pool
  x_rec :: "string \<rightharpoonup> 8 word"
  x_sup :: "string \<rightharpoonup> string"
  x_subcs :: pool
  x_reads :: "string list"

text \<open>
  Lines 461 to 467: the suffix of this occurrence of the block name and the counter
  \<open>rec\<close>.  \<open>idx\<close> is a \<open>uint8\<close>, so \<open>idx++\<close> wraps.
\<close>

definition ext_suffix :: "string \<Rightarrow> xstate \<Rightarrow> string \<times> xstate" where
  "ext_suffix blockName st =
     (case x_rec st blockName of
        Some idx \<Rightarrow>
          (''.'' @ show_nat (unat (idx + 1)), st\<lparr>x_rec := (x_rec st)(blockName \<mapsto> idx + 1)\<rparr>)
      | None \<Rightarrow> ([], st\<lparr>x_rec := (x_rec st)(blockName \<mapsto> 0)\<rparr>))"

text \<open>
  Lines 478 to 484, taken when \<open>hasSuper\<close> holds: the inner text of the layout's block
  is include-expanded and replaces the first super marker in \<open>v\<close>.
\<close>

definition ext_splice ::
  "Standard \<Rightarrow> source \<Rightarrow> string \<Rightarrow> string \<Rightarrow> string \<Rightarrow> string \<Rightarrow> string \<Rightarrow> xstate \<Rightarrow> string \<times> xstate"
where
  "ext_splice self src superTag blockName innerStr sfx v st =
     (case ContainsSubTpl self src innerStr (x_subcs st) (x_reads st) of
        (innerStr', subcs', rd') \<Rightarrow>
          (Replace1 v superTag innerStr',
           st\<lparr>x_subcs := subcs', x_reads := rd',
              x_extcs := (if sfx = []
                          then AList.update blockName (Replace1 v superTag innerStr') (x_extcs st)
                          else x_extcs st)\<rparr>))"

text \<open>Lines 468 to 485: the value \<open>v\<close> of the block after the super marker is handled.\<close>

definition ext_super ::
  "Standard \<Rightarrow> source \<Rightarrow> string \<Rightarrow> string \<Rightarrow> string \<Rightarrow> string \<Rightarrow> string \<Rightarrow> xstate \<Rightarrow> string \<times> xstate"
where
  "ext_super self src superTag blockName innerStr sfx v st =
     (if superTag = [] then (v, st)
      else (case x_sup st blockName of
              None \<Rightarrow>
                if Contains v superTag
                then ext_splice self src superTag blockName innerStr sfx v
                       (st\<lparr>x_sup := (x_sup st)(blockName \<mapsto> v)\<rparr>)
                else (v, st)
            | Some sv \<Rightarrow> ext_splice self src superTag blockName innerStr sfx sv st))"

text \<open>The body of the loop of \<open>ParseExtend\<close> (lines 455 to 500) for one occurrence.\<close>

definition ext_step ::
  "Standard \<Rightarrow> source \<Rightarrow> bool \<Rightarrow> string \<Rightarrow> string \<Rightarrow> xstate \<Rightarrow> submatch \<Rightarrow> xstate"
where
  "ext_step self src hasParent passObject superTag st m =
     (case m of (matched, blockName, innerStr) \<Rightarrow>
        (case map_of (x_extcs st) blockName of
           Some v0 \<Rightarrow>
             (case ext_suffix blockName st of
                (sfx, st1) \<Rightarrow>
                  (case ext_super self src superTag blockName innerStr sfx v0 st1 of
                     (v, st2) \<Rightarrow>
                       (let st3 = (if sfx \<noteq> []
                                   then st2\<lparr>x_extcs := AList.update (blockName @ sfx) v (x_extcs st2),
                                           x_rec := (x_rec st2)(blockName @ sfx \<mapsto> 0)\<rparr>
                                   else st2)
                        in st3\<lparr>x_content :=
                             Replace1 (x_content st3) matched
                               (if hasParent
                                then DelimLeft self @ BlockTag self @ '' \"'' @ blockName @ ''\"''
                                     @ DelimRight self @ v @ DelimLeft self @ ''/''
                                     @ BlockTag self @ DelimRight self
                                else Tag self (''template \"'' @ blockName @ sfx @ ''\" ''
                                               @ passObject))\<rparr>)))
         | None \<Rightarrow>
             (if \<not> hasParent
              then st\<lparr>x_content := Replace1 (x_content st) matched innerStr\<rparr>
              else st)))"

text \<open>
  The name inside a self-closing placeholder (lines 441 and 442): the text between
  its first two quote characters.  A match of \<open>rplTagRegex\<close> always has them.
\<close>

definition placeholder_name :: "string \<Rightarrow> string" where
  "placeholder_name match =
     takeWhile (\<lambda>c. c \<noteq> CHR ''\"'') (drop 1 (dropWhile (\<lambda>c. c \<noteq> CHR ''\"'') match))"

definition superTag_of :: "Standard \<Rightarrow> string" where
  "superTag_of self = (if SuperTag self \<noteq> [] then Tag self (SuperTag self) else [])"

text \<open>Lines 440 to 448: the placeholders replaced, and the Block occurrences found.\<close>

definition ext_filled :: "Standard \<Rightarrow> string \<Rightarrow> pool \<Rightarrow> string" where
  "ext_filled self content extcs =
     ReplaceAllStringFunc (rplTagRegex self) content
       (\<lambda>match. case map_of extcs (placeholder_name match) of Some v \<Rightarrow> v | None \<Rightarrow> [])"

definition ext_loop ::
  "Standard \<Rightarrow> source \<Rightarrow> bool \<Rightarrow> string \<Rightarrow> submatch list \<Rightarrow> xstate \<Rightarrow> xstate"
where
  "ext_loop self src hasParent passObject ms st =
     foldl (ext_step self src hasParent passObject (superTag_of self)) st ms"

text \<open>
  \<open>ParseExtend\<close>.  It returns the content and the match \<open>m\<close> of the layout's own Extend
  tag; the maps \<open>extcs\<close> and \<open>subcs\<close>, which the Go code changes in place, are returned as
  well.  The last loop (lines 502 to 506) keeps the entries of \<open>extcs\<close> whose key is in
  \<open>rec\<close>.
\<close>

definition ParseExtend ::
  "Standard \<Rightarrow> source \<Rightarrow> string \<Rightarrow> pool \<Rightarrow> string \<Rightarrow> pool \<Rightarrow> string list
     \<Rightarrow> (string \<times> submatch list) \<times> pool \<times> pool \<times> string list"
where
  "ParseExtend self src content extcs passObject subcs rd =
     (let m = FindStartSubmatch (extTagRegex self) content;
          hasParent = (m \<noteq> []);
          passObject' = (if passObject = [] then ''.'' else passObject);
          content' = ext_filled self content extcs;
          matches = FindAllStringSubmatch (blkTagRegex self) content';
          st = ext_loop self src hasParent passObject' matches
                 \<lparr>x_content = content', x_extcs = extcs, x_rec = Map.empty,
                  x_sup = Map.empty, x_subcs = subcs, x_reads = rd\<rparr>
      in ((x_content st, m),
          filter (\<lambda>(k, v). x_rec st k \<noteq> None) (x_extcs st),
          x_subcs st, x_reads st))"

section \<open>Compiled trees and the evaluator\<close>

text \<open>
  \<open>html/template\<close> is outside the repository and is a parameter of the model.  A
  compiled tree is represented by what it was compiled from: its name, the text parsed as
  its body, the associated templates (name and text, in the order they were added by
  \<open>New(name).Parse\<close> or \<open>AddParseTree\<close>) and the bound function map.  \<open>tplParse t text\<close>
  is the evaluator's verdict on parsing \<open>text\<close> into the template \<open>t\<close>: \<open>None\<close> when it
  accepts, the error text otherwise.  \<open>tplExecute h t data\<close> is what \<open>ExecuteTemplate\<close>
  writes and the error it returns, if any; \<open>h\<close> is the store that the helper functions
  \<open>hasBlock\<close> and \<open>hasAnyBlock\<close> read when the evaluator calls them.
\<close>

datatype func = HasBlock nat | HasAnyBlock nat | UserFunc nat

type_synonym FuncMap = "(string \<times> func) list"

record tmpl =
  tname :: string
  tbody :: string
  tassoc :: "(string \<times> string) list"
  tfuncs :: FuncMap

text \<open>\<open>tplInfo\<close> and \<open>CcRel\<close>; \<open>Tpl0\<close> and \<open>Tpl1\<close> are \<open>Tpl[0]\<close> and \<open>Tpl[1]\<close>.\<close>

record tplInfo =
  Template :: "tmpl option"
  Blocks :: "string set"

definition NewTplInfo :: "tmpl option \<Rightarrow> tplInfo" where
  "NewTplInfo t = \<lparr>Template = t, Blocks = {}\<rparr>"

record CcRel =
  Rel :: "(string \<times> 8 word) list"
  Tpl0 :: tplInfo
  Tpl1 :: tplInfo

type_synonym data = string

record evaluator =
  tplParse :: "tmpl \<Rightarrow> string \<Rightarrow> string option"
  tplExecute :: "CcRel list \<Rightarrow> tmpl \<Rightarrow> data \<Rightarrow> string \<times> string option"

text \<open>
  \<open>t.Parse(text)\<close> returns \<open>t\<close> with the text compiled, or the error.  \<open>diag\<close> is
  \<open>tmpl, _ = t.Parse(text)\<close>: the tree, or \<open>nil\<close> when the evaluator rejects the text.
\<close>

definition Parse :: "evaluator \<Rightarrow> tmpl \<Rightarrow> string \<Rightarrow> string + tmpl" where
  "Parse ev t text =
     (case tplParse ev t text of
        Some e \<Rightarrow> Inl e
      | None \<Rightarrow> Inr (t\<lparr>tbody := text\<rparr>))"

definition diag :: "evaluator \<Rightarrow> tmpl \<Rightarrow> string \<Rightarrow> tmpl option" where
  "diag ev t text = (case Parse ev t text of Inl e \<Rightarrow> None | Inr t' \<Rightarrow> Some t')"

text \<open>
  \<open>htmlTpl.New(name)\<close>, \<open>tmpl.New(name)\<close> and \<open>t.Funcs(funcMap)\<close>, which adds the
  entries of \<open>funcMap\<close> to the functions of the tree (\<open>AList.merge\<close>: the entries of the
  second map win).
\<close>

definition NewTemplate :: "string \<Rightarrow> tmpl" where
  "NewTemplate name = \<lparr>tname = name, tbody = [], tassoc = [], tfuncs = []\<rparr>"

definition NewAssoc :: "tmpl \<Rightarrow> string \<Rightarrow> tmpl" where
  "NewAssoc t name = t\<lparr>tname := name, tbody := []\<rparr>"

definition bindFuncs :: "tmpl \<Rightarrow> FuncMap \<Rightarrow> tmpl" where
  "bindFuncs t funcMap = t\<lparr>tfuncs := AList.merge (tfuncs t) funcMap\<rparr>"

section \<open>The compiled-tree cache\<close>

text \<open>
  \<open>CachedRelation\<close> maps a cache key to a pointer to a \<open>CcRel\<close>, and \<open>parse\<close> changes such
  objects through the pointer \<open>rel\<close>, which may or may not be in the map.  The store
  \<open>heap\<close> holds the objects; a pointer is an index into it.  \<open>reads\<close> and \<open>calls\<close> record
  the reads of the content source and the callback invocations.
\<close>

record engine =
  CachedRelation :: "(string \<times> nat) list"
  heap :: "CcRel list"
  reads :: "string list"
  calls :: "call list"

definition alloc :: "CcRel \<Rightarrow> engine \<Rightarrow> nat \<times> engine" where
  "alloc obj s = (length (heap s), s\<lparr>heap := heap s @ [obj]\<rparr>)"

definition heap_upd :: "nat \<Rightarrow> (CcRel \<Rightarrow> CcRel) \<Rightarrow> engine \<Rightarrow> engine" where
  "heap_upd a f s = s\<lparr>heap := (heap s)[a := f (heap s ! a)]\<rparr>"

text \<open>\<open>&CcRel{Rel: map[string]uint8{cachedKey: 0}, Tpl: [2]*tplInfo{NewTplInfo(nil), NewTplInfo(t)}}\<close>.\<close>

definition newCcRel :: "string \<Rightarrow> tmpl option \<Rightarrow> CcRel" where
  "newCcRel cachedKey t = \<lparr>Rel = [(cachedKey, 0)], Tpl0 = NewTplInfo None, Tpl1 = NewTplInfo t\<rparr>"

definition set_Rel :: "string \<Rightarrow> CcRel \<Rightarrow> CcRel" where
  "set_Rel cachedKey r = r\<lparr>Rel := AList.update cachedKey 0 (Rel r)\<rparr>"

text \<open>
  \<open>setFunc\<close>.  The two closures keep the pointer \<open>tplInf\<close> and read \<open>tplInf.Blocks\<close> when
  they are called, so a function value carries the pointer and \<open>call_func\<close> reads the
  store.  \<open>hasBlock\<close> and \<open>hasAnyBlock\<close> are the bodies of the closures.
\<close>

definition setFunc :: "nat \<Rightarrow> FuncMap \<Rightarrow> FuncMap" where
  "setFunc a funcMap =
     AList.update ''hasAnyBlock'' (HasAnyBlock a) (AList.update ''hasBlock'' (HasBlock a) funcMap)"

fun hasBlock :: "tplInfo \<Rightarrow> string list \<Rightarrow> bool" where
  "hasBlock tplInf [] = True"
| "hasBlock tplInf (blockName # blocks) =
     (if blockName \<notin> Blocks tplInf then False else hasBlock tplInf blocks)"

fun hasAnyBlock :: "tplInfo \<Rightarrow> string list \<Rightarrow> bool" where
  "hasAnyBlock tplInf [] = False"
| "hasAnyBlock tplInf (blockName # blocks) =
     (if blockName \<in> Blocks tplInf then True else hasAnyBlock tplInf blocks)"

fun call_func :: "CcRel list \<Rightarrow> func \<Rightarrow> string list \<Rightarrow> bool option" where
  "call_func h (HasBlock a) blocks = Some (hasBlock (Tpl0 (h ! a)) blocks)"
| "call_func h (HasAnyBlock a) blocks = Some (hasAnyBlock (Tpl0 (h ! a)) blocks)"
| "call_func h (UserFunc n) blocks = None"

text \<open>
  Lines 281 to 290 of \<open>parse\<close>: the function map of \<open>getFuncs\<close> (empty without it),
  overwritten by the functions of the context.
\<close>

definition callerFuncs :: "Standard \<Rightarrow> ctx \<Rightarrow> FuncMap" where
  "callerFuncs self c =
     AList.merge
       (case getFuncs self of
          Some fs \<Rightarrow> map (\<lambda>(k, v). (k, UserFunc v)) fs
        | None \<Rightarrow> [])
       (map (\<lambda>(k, v). (k, UserFunc v)) (Funcs c))"

text \<open>Line 292: the entry of the key when it holds a standalone tree.\<close>

definition cache_hit :: "engine \<Rightarrow> string \<Rightarrow> (nat \<times> tmpl) option" where
  "cache_hit s cachedKey =
     (case map_of (CachedRelation s) cachedKey of
        None \<Rightarrow> None
      | Some a \<Rightarrow>
          (case Template (Tpl0 (heap s ! a)) of
             None \<Rightarrow> None
           | Some t \<Rightarrow> Some (a, t)))"

text \<open>
  Lines 307 to 312: \<open>rel\<close> is the object of the key, or a new object that is not (yet) in
  the map.
\<close>

definition rel_of :: "string \<Rightarrow> engine \<Rightarrow> nat \<times> engine" where
  "rel_of cachedKey s =
     (case map_of (CachedRelation s) cachedKey of
        Some a \<Rightarrow> (a, s)
      | None \<Rightarrow> alloc (newCcRel cachedKey None) s)"

text \<open>Lines 339 to 346: the layout file is registered with the key as a dependent.\<close>

definition register :: "string \<Rightarrow> string \<Rightarrow> engine \<Rightarrow> engine" where
  "register extFile cachedKey s =
     (case map_of (CachedRelation s) extFile of
        None \<Rightarrow>
          (case alloc (newCcRel cachedKey None) s of
             (a, s') \<Rightarrow> s'\<lparr>CachedRelation := AList.update extFile a (CachedRelation s')\<rparr>)
      | Some a \<Rightarrow>
          (if map_of (Rel (heap s ! a)) cachedKey = None
           then heap_upd a (set_Rel cachedKey) s
           else s))"

text \<open>
  The loop of lines 326 to 347, at most ten hops.  \<open>Inl e\<close>: the layout file could not be
  read (error \<open>e\<close>).
\<close>

fun chain_loop ::
  "nat \<Rightarrow> Standard \<Rightarrow> source \<Rightarrow> string \<Rightarrow> string \<Rightarrow> submatch list \<Rightarrow> pool \<Rightarrow> pool \<Rightarrow> engine
     \<Rightarrow> (string + string \<times> pool \<times> pool) \<times> engine"
where
  "chain_loop 0 self src cachedKey content m subcs extcs s = (Inr (content, subcs, extcs), s)"
| "chain_loop (Suc n) self src cachedKey content [] subcs extcs s =
     (Inr (content, subcs, extcs), s)"
| "chain_loop (Suc n) self src cachedKey content (m0 # ms) subcs extcs s =
     (case ParseBlock self src content subcs extcs (reads s) of
        (subcs1, extcs1, rd1) \<Rightarrow>
          (case RawContent self src (TmplPath self (fst (snd m0) @ Ext self)) of
             Inl e \<Rightarrow> (Inl e, s\<lparr>reads := rd1 @ [TmplPath self (fst (snd m0) @ Ext self)]\<rparr>)
           | Inr content' \<Rightarrow>
               (case ParseExtend self src content' extcs1 (snd (snd m0)) subcs1
                       (rd1 @ [TmplPath self (fst (snd m0) @ Ext self)]) of
                  ((content2, m2), extcs2, subcs2, rd2) \<Rightarrow>
                    chain_loop n self src cachedKey content2 m2 subcs2 extcs2
                      (register (TmplPath self (fst (snd m0) @ Ext self)) cachedKey
                         (s\<lparr>reads := rd2\<rparr>)))))"

text \<open>
  Lines 378 to 386: the tree \<open>t\<close> of the sub-template \<open>name\<close> is stored in the child slot.
  The slot holds the tree as a value; all that is read back from it is its parse tree.
\<close>

definition store_child :: "string \<Rightarrow> string \<Rightarrow> tmpl \<Rightarrow> engine \<Rightarrow> engine" where
  "store_child name cachedKey t s =
     (case map_of (CachedRelation s) name of
        Some a \<Rightarrow>
          heap_upd a (\<lambda>r. (set_Rel cachedKey r)\<lparr>Tpl1 := (Tpl1 r)\<lparr>Template := Some t\<rparr>\<rparr>) s
      | None \<Rightarrow>
          (case alloc (newCcRel cachedKey (Some t)) s of
             (a, s') \<Rightarrow> s'\<lparr>CachedRelation := AList.update name a (CachedRelation s')\<rparr>))"

definition child_tree :: "engine \<Rightarrow> string \<Rightarrow> (nat \<times> tmpl) option" where
  "child_tree s name =
     (case map_of (CachedRelation s) name of
        None \<Rightarrow> None
      | Some a \<Rightarrow>
          (case Template (Tpl1 (heap s ! a)) of
             None \<Rightarrow> None
           | Some t \<Rightarrow> Some (a, t)))"

definition define_wrap :: "Standard \<Rightarrow> string \<Rightarrow> string \<Rightarrow> string" where
  "define_wrap self name body =
     Tag self (''define \"'' @ CleanTemplateName self name @ ''\"'') @ body @ Tag self ''end''"

text \<open>
  \<open>t.Parse(text)\<close> for \<open>t = tmpl.New(name)\<close>, as seen from \<open>tmpl\<close>: when the text is
  accepted the set of \<open>tmpl\<close> has one more associated template.  \<open>assoc_diag\<close> is the same
  with the result ignored (lines 373 and 399).
\<close>

definition assoc_parse :: "evaluator \<Rightarrow> tmpl \<Rightarrow> string \<Rightarrow> string \<Rightarrow> string + tmpl" where
  "assoc_parse ev tmpl name text =
     (case tplParse ev (NewAssoc tmpl name) text of
        Some e \<Rightarrow> Inl e
      | None \<Rightarrow> Inr (tmpl\<lparr>tassoc := tassoc tmpl @ [(name, text)]\<rparr>))"

definition assoc_diag :: "evaluator \<Rightarrow> tmpl \<Rightarrow> string \<Rightarrow> string \<Rightarrow> tmpl" where
  "assoc_diag ev tmpl name text =
     (case assoc_parse ev tmpl name text of Inl e \<Rightarrow> tmpl | Inr tmpl' \<Rightarrow> tmpl')"

text \<open>
  The loop over \<open>subcs\<close> (lines 357 to 388).  \<open>Inl e\<close>: the evaluator rejected a
  sub-template with error \<open>e\<close> and \<open>parse\<close> returns.
\<close>

fun sub_loop ::
  "Standard \<Rightarrow> evaluator \<Rightarrow> ctx \<Rightarrow> string \<Rightarrow> string \<Rightarrow> pool \<Rightarrow> tmpl \<Rightarrow> pool \<Rightarrow> engine
     \<Rightarrow> (string option \<times> tmpl \<times> pool) \<times> engine"
where
  "sub_loop self ev c tmplOriginalName cachedKey [] tmpl clips s = ((None, tmpl, clips), s)"
| "sub_loop self ev c tmplOriginalName cachedKey ((name, subc) # rest) tmpl clips s =
     (case child_tree s name of
        Some (a, ct) \<Rightarrow>
          sub_loop self ev c tmplOriginalName cachedKey rest
            (tmpl\<lparr>tassoc := tassoc tmpl @ [(name, tbody ct)]\<rparr>) clips
            (heap_upd a (set_Rel cachedKey) s)
      | None \<Rightarrow>
          if name = tname tmpl
          then sub_loop self ev c tmplOriginalName cachedKey rest tmpl clips
                 (store_child name cachedKey tmpl s)
          else
            (case ContainsFunctionResult self c tmplOriginalName subc clips (calls s) of
               (subc', clips', calls') \<Rightarrow>
                 (case assoc_parse ev tmpl name (define_wrap self name subc') of
                    Inl e \<Rightarrow>
                      ((Some e,
                        assoc_diag ev tmpl name (''Parse File '' @ name @ '' err: '' @ e),
                        clips'),
                       s\<lparr>calls := calls'\<rparr>)
                  | Inr tmpl' \<Rightarrow>
                      sub_loop self ev c tmplOriginalName cachedKey rest tmpl' clips'
                        (store_child name cachedKey
                           ((NewAssoc tmpl name)\<lparr>tbody := define_wrap self name subc'\<rparr>)
                           (s\<lparr>calls := calls'\<rparr>)))))"

text \<open>The loop over \<open>extcs\<close> (lines 389 to 404); \<open>a\<close> is the pointer \<open>rel\<close>.\<close>

fun blk_defs ::
  "Standard \<Rightarrow> evaluator \<Rightarrow> ctx \<Rightarrow> string \<Rightarrow> nat \<Rightarrow> pool \<Rightarrow> tmpl \<Rightarrow> pool \<Rightarrow> engine
     \<Rightarrow> (string option \<times> tmpl \<times> pool) \<times> engine"
where
  "blk_defs self ev c tmplOriginalName a [] tmpl clips s = ((None, tmpl, clips), s)"
| "blk_defs self ev c tmplOriginalName a ((name, extc) # rest) tmpl clips s =
     (if name = tname tmpl
      then blk_defs self ev c tmplOriginalName a rest tmpl clips
             (heap_upd a (\<lambda>r. r\<lparr>Tpl0 := (Tpl0 r)\<lparr>Blocks := insert name (Blocks (Tpl0 r))\<rparr>\<rparr>) s)
      else
        (case ContainsFunctionResult self c tmplOriginalName extc clips (calls s) of
           (extc', clips', calls') \<Rightarrow>
             (case assoc_parse ev tmpl name (define_wrap self name extc') of
                Inl e \<Rightarrow>
                  ((Some e,
                    assoc_diag ev tmpl name (''Parse Block '' @ name @ '' err: '' @ e),
                    clips'),
                   s\<lparr>calls := calls'\<rparr>)
              | Inr tmpl' \<Rightarrow>
                  blk_defs self ev c tmplOriginalName a rest tmpl' clips'
                    (heap_upd a (\<lambda>r. r\<lparr>Tpl0 := (Tpl0 r)\<lparr>Blocks := insert name (Blocks (Tpl0 r))\<rparr>\<rparr>)
                       (s\<lparr>calls := calls'\<rparr>)))))"

section \<open>The render driver\<close>

text \<open>
  Lines 348 to 408 of \<open>parse\<close>, after the chain is resolved.  \<open>a\<close> is the pointer \<open>rel\<close>,
  \<open>t\<close> the new template with its functions bound.  The result is the pair of the named
  results \<open>tmpl\<close> and \<open>err\<close> (\<open>None\<close> is \<open>nil\<close>): \<open>err\<close> keeps the error it was assigned when
  the function returns after building a diagnostic tree.
\<close>

definition set_standalone :: "tmpl \<Rightarrow> CcRel \<Rightarrow> CcRel" where
  "set_standalone t r = r\<lparr>Tpl0 := (Tpl0 r)\<lparr>Template := Some t\<rparr>\<rparr>"

definition compile_tail ::
  "Standard \<Rightarrow> evaluator \<Rightarrow> source \<Rightarrow> ctx \<Rightarrow> string \<Rightarrow> string \<Rightarrow> nat \<Rightarrow> tmpl \<Rightarrow> string \<Rightarrow> pool \<Rightarrow> pool
     \<Rightarrow> engine \<Rightarrow> (tmpl option \<times> string option) \<times> engine"
where
  "compile_tail self ev src c tmplOriginalName tmplName a t content subcs extcs s =
     (case ContainsSubTpl self src content subcs (reads s) of
        (content1, subcs1, rd1) \<Rightarrow>
          (case ContainsFunctionResult self c tmplOriginalName content1 [] (calls s) of
             (content2, clips, calls1) \<Rightarrow>
               (case Parse ev t content2 of
                  Inl e \<Rightarrow>
                    ((diag ev t (''Parse '' @ tmplName @ '' err: '' @ e), Some e),
                     s\<lparr>reads := rd1, calls := calls1\<rparr>)
                | Inr tmpl \<Rightarrow>
                    (case sub_loop self ev c tmplOriginalName tmplName subcs1 tmpl clips
                            (s\<lparr>reads := rd1, calls := calls1\<rparr>) of
                       ((Some e, tmpl1, clips1), s2) \<Rightarrow> ((Some tmpl1, Some e), s2)
                     | ((None, tmpl1, clips1), s2) \<Rightarrow>
                         (case blk_defs self ev c tmplOriginalName a extcs tmpl1 clips1 s2 of
                            ((Some e, tmpl2, clips2), s3) \<Rightarrow> ((Some tmpl2, Some e), s3)
                          | ((None, tmpl2, clips2), s3) \<Rightarrow>
                              ((Some tmpl2, None),
                               (heap_upd a (set_standalone tmpl2) s3)
                                 \<lparr>CachedRelation := AList.update tmplName a (CachedRelation s3)\<rparr>))))))"

text \<open>
  \<open>parse\<close>.  On a hit \<open>tmpl.Funcs(funcMap)\<close> changes the cached tree itself, so the store
  is updated.  The debug logging is left out.
\<close>

definition parse ::
  "Standard \<Rightarrow> evaluator \<Rightarrow> source \<Rightarrow> ctx \<Rightarrow> string \<Rightarrow> engine
     \<Rightarrow> (tmpl option \<times> string option) \<times> engine"
where
  "parse self ev src c tmplName0 s =
     (let tmplOriginalName = tmplName0;
          tmplName = TmplPath self (tmplName0 @ Ext self);
          funcMap = callerFuncs self c
      in case cache_hit s tmplName of
           Some (a, tmpl) \<Rightarrow>
             ((Some (bindFuncs tmpl (setFunc a funcMap)), None),
              heap_upd a (set_standalone (bindFuncs tmpl (setFunc a funcMap))) s)
         | None \<Rightarrow>
             (case rel_of tmplName s of
                (a, s1) \<Rightarrow>
                  (let t = bindFuncs (NewTemplate (CleanTemplateName self tmplName))
                             (setFunc a funcMap)
                   in case RawContent self src tmplName of
                        Inl e \<Rightarrow> ((diag ev t e, Some e), s1\<lparr>reads := reads s1 @ [tmplName]\<rparr>)
                      | Inr content \<Rightarrow>
                          (case chain_loop 10 self src tmplName
                                  (ReplaceAllStringFunc (rplTagRegex self) content (\<lambda>match. []))
                                  (FindStartSubmatch (extTagRegex self) content) [] []
                                  (s1\<lparr>reads := reads s1 @ [tmplName]\<rparr>) of
                             (Inl e, s2) \<Rightarrow> ((diag ev t e, Some e), s2)
                           | (Inr (content1, subcs, extcs), s2) \<Rightarrow>
                               compile_tail self ev src c tmplOriginalName tmplName a t
                                 content1 subcs extcs s2))))"

text \<open>
  A Go call either returns or panics.  \<open>tmpl.Name()\<close> and \<open>tmpl.ExecuteTemplate\<close> on a
  \<open>nil\<close> tree dereference the nil pointer and panic.
\<close>

datatype 'a outcome = Panicked | Returned 'a

text \<open>
  \<open>Render\<close> returns an error (\<open>None\<close> is \<open>nil\<close>); the second component is the text
  written to \<open>w\<close>.  The mutex and the reentrancy mark in the context do not change what
  one call computes and are left out.
\<close>

definition Render ::
  "Standard \<Rightarrow> evaluator \<Rightarrow> source \<Rightarrow> ctx \<Rightarrow> string \<Rightarrow> data \<Rightarrow> engine
     \<Rightarrow> (string option \<times> string) outcome \<times> engine"
where
  "Render self ev src c tmplName values s =
     (case parse self ev src c tmplName s of
        ((tmpl, Some err), s') \<Rightarrow> (Returned (Some err, []), s')
      | ((None, None), s') \<Rightarrow> (Panicked, s')
      | ((Some tmpl, None), s') \<Rightarrow>
          (case tplExecute ev (heap s') tmpl values of
             (out, e) \<Rightarrow> (Returned (e, out), s')))"

definition execute :: "evaluator \<Rightarrow> CcRel list \<Rightarrow> tmpl \<Rightarrow> data \<Rightarrow> string" where
  "execute ev h tmpl values =
     (case tplExecute ev h tmpl values of
        (out, Some e) \<Rightarrow> ''Parse '' @ tname tmpl @ '' err: '' @ e
      | (out, None) \<Rightarrow> out)"

definition Fetch ::
  "Standard \<Rightarrow> evaluator \<Rightarrow> source \<Rightarrow> ctx \<Rightarrow> string \<Rightarrow> data \<Rightarrow> engine \<Rightarrow> string outcome \<times> engine"
where
  "Fetch self ev src c tmplName values s =
     (case parse self ev src c tmplName s of
        ((None, err), s') \<Rightarrow> (Panicked, s')
      | ((Some tmpl, err), s') \<Rightarrow> (Returned (execute ev (heap s') tmpl values), s'))"


definition deleteCachedRelation :: "string \<Rightarrow> engine \<Rightarrow> engine" where
  "deleteCachedRelation name s =
     (case map_of (CachedRelation s) name of
        Some cs \<Rightarrow> s\<lparr>CachedRelation := []\<rparr>
      | None \<Rightarrow> s)"

definition file_event :: "string \<Rightarrow> string \<Rightarrow> string \<Rightarrow> engine \<Rightarrow> engine" where
  "file_event name typ event s =
     (if event = ''create'' then s
      else if event = ''delete'' \<or> event = ''modify'' \<or> event = ''rename''
      then (if typ = ''dir'' then s else deleteCachedRelation name s)
      else s)"

text \<open>
  \<open>New\<close>: the defaults of the constructor.  The three external functions are its
  arguments here; \<open>templateDir\<close> is the absolute path of the directory.
\<close>

definition New ::
  "(string \<Rightarrow> string \<Rightarrow> string) \<Rightarrow> (string \<Rightarrow> string) \<Rightarrow> (string \<Rightarrow> string) \<Rightarrow> string \<Rightarrow> Standard"
where
  "New join clean cmp templateDir =
     \<lparr>TemplateDir = templateDir, DelimLeft = ''{{'', DelimRight = ''}}'',
      IncludeTag = ''Include'', FunctionTag = ''Function'', ExtendTag = ''Extend'',
      BlockTag = ''Block'', SuperTag = ''Super'', StripTag = ''Strip'', Ext = ''.html'',
      debug = False, tmplPathFixer = None, contentProcessors = [], getFuncs = None,
      pathJoin = join, CleanTemplateName = clean, compact = cmp\<rparr>"

definition new_engine :: engine where
  "new_engine = \<lparr>CachedRelation = [], heap = [], reads = [], calls = []\<rparr>"

section \<open>A concrete setting for the examples\<close>

text \<open>
  The examples run the engine of \<open>New\<close> on the directory \<open>/t\<close>.  For simple names
  \<open>filepath.Join\<close> puts a slash between directory and name; template names are left as
  they are and Strip bodies are not compacted (no example has a Strip region).  A missing
  file gives the error text of \<open>ioutil.ReadFile\<close>.
\<close>

definition std :: Standard where
  "std = New (\<lambda>d p. d @ ''/'' @ p) (\<lambda>n. n) (\<lambda>b. b) ''/t''"

definition disk :: "(string \<times> string) list \<Rightarrow> source" where
  "disk fs = \<lparr>files = fs, read_error = (\<lambda>p. ''open '' @ p @ '': no such file or directory'')\<rparr>"

definition no_ctx :: ctx where
  "no_ctx = \<lparr>Funcs = [], GetFunc = (\<lambda>n. None)\<rparr>"

text \<open>
  Two evaluators for the examples.  \<open>lenient\<close> accepts every text and writes the body of
  the tree as it is, which is what \<open>html/template\<close> does with a text that has no action.
  \<open>html/template\<close> rejects a text in which a left delimiter is never followed by a right
  delimiter (it reports an unclosed action, or an error inside the action before that);
  \<open>strict\<close> rejects exactly these texts.
\<close>

definition lenient :: evaluator where
  "lenient = \<lparr>tplParse = (\<lambda>t text. None), tplExecute = (\<lambda>h t d. (tbody t, None))\<rparr>"

fun unclosed :: "string \<Rightarrow> string \<Rightarrow> string \<Rightarrow> bool" where
  "unclosed l r [] = False"
| "unclosed l r (c # s) =
     ((prefix l (c # s) \<and> \<not> Contains (drop (length l) (c # s)) r) \<or> unclosed l r s)"

definition strict :: evaluator where
  "strict = \<lparr>tplParse = (\<lambda>t text. if unclosed ''{{'' ''}}'' text then Some ''unclosed action'' else None),
             tplExecute = (\<lambda>h t d. (tbody t, None))\<rparr>"

section \<open>Facts about the extend/block resolver\<close>

text \<open>
  A Block occurrence named \<open>n\<close> changes the entries of \<open>extcs\<close>, \<open>rec\<close> and \<open>sup\<close> under
  \<open>n\<close> and under \<open>n\<close> followed by a numeric suffix, and no others.
\<close>

lemma ext_step_frame:
  assumes "n \<noteq> b" and "\<forall>k. n @ ''.'' @ show_nat k \<noteq> b"
  shows "map_of (x_extcs (ext_step self src hp po sT st (m, n, i))) b = map_of (x_extcs st) b"
    and "x_rec (ext_step self src hp po sT st (m, n, i)) b = x_rec st b"
    and "x_sup (ext_step self src hp po sT st (m, n, i)) b = x_sup st b"
  using assms
  by (auto simp: ext_step_def ext_suffix_def ext_super_def ext_splice_def AList.update_conv' Let_def
      split: prod.splits option.splits if_splits)

lemma ext_loop_frame:
  assumes "\<forall>v\<in>set ms. fst (snd v) \<noteq> b \<and> (\<forall>k. fst (snd v) @ ''.'' @ show_nat k \<noteq> b)"
  shows "map_of (x_extcs (ext_loop self src hp po ms st)) b = map_of (x_extcs st) b \<and>
         x_rec (ext_loop self src hp po ms st) b = x_rec st b \<and>
         x_sup (ext_loop self src hp po ms st) b = x_sup st b"
  using assms
proof (induction ms arbitrary: st)
  case Nil
  then show ?case by (simp add: ext_loop_def)
next
  case (Cons v ms)
  obtain m n i where v: "v = (m, n, i)" by (cases v)
  from Cons.prems v have n: "n \<noteq> b" "\<forall>k. n @ ''.'' @ show_nat k \<noteq> b" by auto
  from Cons.prems have rest: "\<forall>v\<in>set ms. fst (snd v) \<noteq> b \<and> (\<forall>k. fst (snd v) @ ''.'' @ show_nat k \<noteq> b)"
    by simp
  have unf: "ext_loop self src hp po (v # ms) st =
        ext_loop self src hp po ms (ext_step self src hp po (superTag_of self) st v)"
    by (simp add: ext_loop_def)
  from Cons.IH [OF rest, of "ext_step self src hp po (superTag_of self) st v"]
    ext_step_frame [OF n, of self src hp po "superTag_of self" st m i] v unf
  show ?case by simp
qed

lemma ext_loop_append:
  "ext_loop self src hp po (ms1 @ v # ms2) st =
   ext_loop self src hp po ms2
     (ext_step self src hp po (superTag_of self) (ext_loop self src hp po ms1 st) v)"
  by (simp add: ext_loop_def)

lemma ext_step_first:
  assumes "map_of (x_extcs st) b = Some v" and "x_rec st b = None" and "x_sup st b = None"
    and "sT \<noteq> []" and "Contains v sT"
  shows "map_of (x_extcs (ext_step self src hp po sT st (m, b, i))) b =
           Some (Replace1 v sT (fst (ContainsSubTpl self src i (x_subcs st) (x_reads st))))"
    and "x_rec (ext_step self src hp po sT st (m, b, i)) b \<noteq> None"
  using assms
  by (auto simp: ext_step_def ext_suffix_def ext_super_def ext_splice_def AList.update_conv'
      split: prod.splits)

lemma map_of_filter_key:
  "map_of (filter (\<lambda>(k, v). P k) xs) k = (if P k then map_of xs k else None)"
  by (induction xs) auto

lemma ContainsSubTpl_no_include:
  "FindAllStringSubmatch (incTagRegex self) content = [] \<Longrightarrow>
   ContainsSubTpl self src content subcs rd = (content, subcs, rd)"
  by (simp add: ContainsSubTpl.simps)

lemma ParseExtend_override:
  assumes X: "map_of extcs b = Some X"
    and super: "SuperTag self \<noteq> []" "Contains X (superTag_of self)"
    and blocks: "FindAllStringSubmatch (blkTagRegex self) (ext_filled self pc extcs) = ps1 @ (pm, b, Y) # ps2"
    and others: "\<forall>v\<in>set (ps1 @ ps2). fst (snd v) \<noteq> b \<and> (\<forall>k. fst (snd v) @ ''.'' @ show_nat k \<noteq> b)"
    and Y: "FindAllStringSubmatch (incTagRegex self) Y = []"
  shows "map_of (fst (snd (ParseExtend self src pc extcs po subcs rd))) b =
         Some (Replace1 X (superTag_of self) Y)"
proof -
  let ?hp = "FindStartSubmatch (extTagRegex self) pc \<noteq> []"
  let ?po = "if po = [] then ''.'' else po"
  let ?st0 = "\<lparr>x_content = ext_filled self pc extcs, x_extcs = extcs, x_rec = Map.empty,
               x_sup = Map.empty, x_subcs = subcs, x_reads = rd\<rparr>"
  let ?st1 = "ext_loop self src ?hp ?po ps1 ?st0"
  let ?st2 = "ext_step self src ?hp ?po (superTag_of self) ?st1 (pm, b, Y)"
  let ?st3 = "ext_loop self src ?hp ?po ps2 ?st2"
  from others have o1: "\<forall>v\<in>set ps1. fst (snd v) \<noteq> b \<and> (\<forall>k. fst (snd v) @ ''.'' @ show_nat k \<noteq> b)"
    and o2: "\<forall>v\<in>set ps2. fst (snd v) \<noteq> b \<and> (\<forall>k. fst (snd v) @ ''.'' @ show_nat k \<noteq> b)"
    by auto
  from ext_loop_frame [OF o1, of self src ?hp ?po ?st0] X
  have s1: "map_of (x_extcs ?st1) b = Some X" "x_rec ?st1 b = None" "x_sup ?st1 b = None"
    by simp_all
  from super have sT: "superTag_of self \<noteq> []" by (simp add: superTag_of_def Tag_def)
  from ext_step_first [OF s1 sT super(2), of self src ?hp ?po pm Y] Y
  have s2: "map_of (x_extcs ?st2) b = Some (Replace1 X (superTag_of self) Y)"
    "x_rec ?st2 b \<noteq> None"
    by (simp_all add: ContainsSubTpl_no_include)
  from ext_loop_frame [OF o2, of self src ?hp ?po ?st2] s2
  have s3: "map_of (x_extcs ?st3) b = Some (Replace1 X (superTag_of self) Y)" "x_rec ?st3 b \<noteq> None"
    by simp_all
  have "ext_loop self src ?hp ?po (ps1 @ (pm, b, Y) # ps2) ?st0 = ?st3"
    by (rule ext_loop_append)
  with blocks s3 show ?thesis
    by (simp add: ParseExtend_def Let_def map_of_filter_key)
qed

lemma blk_loop_frame:
  "\<forall>v\<in>set cs. fst (snd v) \<noteq> b \<Longrightarrow>
   map_of (fst (snd (blk_loop self src cs subcs extcs rd))) b = map_of extcs b"
proof (induction cs arbitrary: subcs extcs rd)
  case Nil
  then show ?case by simp
next
  case (Cons v cs)
  obtain c subcs' rd' where r: "ContainsSubTpl self src (snd (snd v)) subcs rd = (c, subcs', rd')"
    by (cases "ContainsSubTpl self src (snd (snd v)) subcs rd") auto
  from Cons.prems have "fst (snd v) \<noteq> b" and rest: "\<forall>v\<in>set cs. fst (snd v) \<noteq> b" by auto
  from Cons.IH [OF rest, of subcs' "AList.update (fst (snd v)) c extcs" rd'] r \<open>fst (snd v) \<noteq> b\<close>
  show ?case by (simp add: AList.update_conv')
qed

lemma blk_loop_append:
  "blk_loop self src (cs1 @ cs2) subcs extcs rd =
   (case blk_loop self src cs1 subcs extcs rd of
      (subcs1, extcs1, rd1) \<Rightarrow> blk_loop self src cs2 subcs1 extcs1 rd1)"
  by (induction cs1 arbitrary: subcs extcs rd) (auto split: prod.splits)

lemma ParseBlock_defines:
  assumes "FindAllStringSubmatch (blkTagRegex self) content = cs1 @ (cm, b, X) # cs2"
    and "\<forall>v\<in>set cs2. fst (snd v) \<noteq> b"
    and "FindAllStringSubmatch (incTagRegex self) X = []"
  shows "map_of (fst (snd (ParseBlock self src content subcs extcs rd))) b = Some X"
proof -
  obtain subcs1 extcs1 rd1 where r1: "blk_loop self src cs1 subcs extcs rd = (subcs1, extcs1, rd1)"
    by (cases "blk_loop self src cs1 subcs extcs rd") auto
  from assms(3) have x: "ContainsSubTpl self src X subcs1 rd1 = (X, subcs1, rd1)"
    by (rule ContainsSubTpl_no_include)
  have "blk_loop self src (cs1 @ (cm, b, X) # cs2) subcs extcs rd =
        blk_loop self src cs2 subcs1 (AList.update b X extcs1) rd1"
    using r1 x by (simp add: blk_loop_append)
  moreover from blk_loop_frame [OF assms(2), of self src subcs1 "AList.update b X extcs1" rd1]
  have "map_of (fst (snd (blk_loop self src cs2 subcs1 (AList.update b X extcs1) rd1))) b = Some X"
    by (simp add: AList.update_conv')
  ultimately show ?thesis using assms(1) by (simp add: ParseBlock_def)
qed


text \<open>
  Two runs of the loop of \<open>ParseExtend\<close> that start from block sets differing only at the
  name \<open>orph\<close> stay in step as long as no occurrence is named \<open>orph\<close>: they differ at
  most at \<open>orph\<close>, and not even there once \<open>orph\<close> has been written (then it is in \<open>rec\<close>).
\<close>

definition agree_off :: "string \<Rightarrow> xstate \<Rightarrow> xstate \<Rightarrow> bool" where
  "agree_off orph st1 st2 \<longleftrightarrow>
     x_content st1 = x_content st2 \<and> x_rec st1 = x_rec st2 \<and> x_sup st1 = x_sup st2 \<and>
     x_subcs st1 = x_subcs st2 \<and> x_reads st1 = x_reads st2 \<and>
     (\<forall>k. k \<noteq> orph \<or> x_rec st1 orph \<noteq> None \<longrightarrow> map_of (x_extcs st1) k = map_of (x_extcs st2) k)"

lemma agree_lookup:
  "agree_off orph st1 st2 \<Longrightarrow> n \<noteq> orph \<Longrightarrow> map_of (x_extcs st1) n = map_of (x_extcs st2) n"
  by (simp add: agree_off_def)

lemma agree_rec: "agree_off orph st1 st2 \<Longrightarrow> x_rec st1 = x_rec st2"
  by (simp add: agree_off_def)

lemma agree_sup: "agree_off orph st1 st2 \<Longrightarrow> x_sup st1 = x_sup st2"
  by (simp add: agree_off_def)

lemma agree_subcs: "agree_off orph st1 st2 \<Longrightarrow> x_subcs st1 = x_subcs st2"
  by (simp add: agree_off_def)

lemma agree_reads: "agree_off orph st1 st2 \<Longrightarrow> x_reads st1 = x_reads st2"
  by (simp add: agree_off_def)

lemma agree_content: "agree_off orph st1 st2 \<Longrightarrow> x_content st1 = x_content st2"
  by (simp add: agree_off_def)

lemma agree_set_rec:
  "agree_off orph st1 st2 \<Longrightarrow> n \<noteq> orph \<Longrightarrow>
   agree_off orph (st1\<lparr>x_rec := (x_rec st1)(n \<mapsto> w)\<rparr>) (st2\<lparr>x_rec := (x_rec st2)(n \<mapsto> w)\<rparr>)"
  by (simp add: agree_off_def)

lemma agree_set_sup:
  "agree_off orph st1 st2 \<Longrightarrow>
   agree_off orph (st1\<lparr>x_sup := (x_sup st1)(n \<mapsto> w)\<rparr>) (st2\<lparr>x_sup := (x_sup st2)(n \<mapsto> w)\<rparr>)"
  by (simp add: agree_off_def)

lemma agree_set_content:
  "agree_off orph st1 st2 \<Longrightarrow> agree_off orph (st1\<lparr>x_content := c\<rparr>) (st2\<lparr>x_content := c\<rparr>)"
  by (simp add: agree_off_def)

lemma agree_set_pool:
  "agree_off orph st1 st2 \<Longrightarrow>
   agree_off orph (st1\<lparr>x_subcs := p, x_reads := r\<rparr>) (st2\<lparr>x_subcs := p, x_reads := r\<rparr>)"
  by (simp add: agree_off_def)

lemma agree_set_extcs:
  "agree_off orph st1 st2 \<Longrightarrow> n \<noteq> orph \<Longrightarrow>
   agree_off orph (st1\<lparr>x_extcs := AList.update n w (x_extcs st1)\<rparr>)
                  (st2\<lparr>x_extcs := AList.update n w (x_extcs st2)\<rparr>)"
  by (simp add: agree_off_def AList.update_conv')

lemma agree_set_suffixed:
  "agree_off orph st1 st2 \<Longrightarrow>
   agree_off orph (st1\<lparr>x_extcs := AList.update k w (x_extcs st1), x_rec := (x_rec st1)(k \<mapsto> z)\<rparr>)
                  (st2\<lparr>x_extcs := AList.update k w (x_extcs st2), x_rec := (x_rec st2)(k \<mapsto> z)\<rparr>)"
  by (simp add: agree_off_def AList.update_conv')

lemma ext_suffix_agree:
  assumes "agree_off orph st1 st2" and "n \<noteq> orph"
  shows "fst (ext_suffix n st1) = fst (ext_suffix n st2) \<and>
         agree_off orph (snd (ext_suffix n st1)) (snd (ext_suffix n st2))"
proof (cases "x_rec st2 n")
  case None
  with assms agree_rec [OF assms(1)] agree_set_rec [OF assms, of 0]
  show ?thesis by (simp add: ext_suffix_def)
next
  case (Some idx)
  with assms agree_rec [OF assms(1)] agree_set_rec [OF assms, of "idx + 1"]
  show ?thesis by (simp add: ext_suffix_def)
qed

lemma ext_splice_agree:
  assumes "agree_off orph st1 st2" and "n \<noteq> orph"
  shows "fst (ext_splice self src sT n i sfx v st1) = fst (ext_splice self src sT n i sfx v st2) \<and>
         agree_off orph (snd (ext_splice self src sT n i sfx v st1))
                        (snd (ext_splice self src sT n i sfx v st2))"
proof -
  obtain i' subcs' rd' where r: "ContainsSubTpl self src i (x_subcs st2) (x_reads st2) = (i', subcs', rd')"
    by (cases "ContainsSubTpl self src i (x_subcs st2) (x_reads st2)") auto
  have eq: "x_subcs st1 = x_subcs st2" "x_reads st1 = x_reads st2"
    using assms(1) by (simp_all add: agree_off_def)
  show ?thesis
  proof (cases "sfx = []")
    case True
    have "agree_off orph
        (st1\<lparr>x_subcs := subcs', x_reads := rd',
             x_extcs := AList.update n (Replace1 v sT i') (x_extcs st1)\<rparr>)
        (st2\<lparr>x_subcs := subcs', x_reads := rd',
             x_extcs := AList.update n (Replace1 v sT i') (x_extcs st2)\<rparr>)"
      using assms by (simp add: agree_off_def AList.update_conv')
    with True r eq show ?thesis by (simp add: ext_splice_def)
  next
    case False
    have "agree_off orph (st1\<lparr>x_subcs := subcs', x_reads := rd'\<rparr>) (st2\<lparr>x_subcs := subcs', x_reads := rd'\<rparr>)"
      by (intro agree_set_pool assms)
    with False r eq show ?thesis by (simp add: ext_splice_def)
  qed
qed

lemma ext_super_agree:
  assumes "agree_off orph st1 st2" and "n \<noteq> orph"
  shows "fst (ext_super self src sT n i sfx v st1) = fst (ext_super self src sT n i sfx v st2) \<and>
         agree_off orph (snd (ext_super self src sT n i sfx v st1))
                        (snd (ext_super self src sT n i sfx v st2))"
proof (cases "sT = []")
  case True
  with assms show ?thesis by (simp add: ext_super_def)
next
  case False
  have sup: "x_sup st1 = x_sup st2" using assms(1) by (rule agree_sup)
  show ?thesis
  proof (cases "x_sup st2 n")
    case None
    show ?thesis
    proof (cases "Contains v sT")
      case True
      from ext_splice_agree [OF agree_set_sup [OF assms(1), of n v] assms(2), of self src sT i sfx v]
        True None False sup
      show ?thesis by (simp add: ext_super_def)
    next
      case no: False
      with None False sup assms show ?thesis by (simp add: ext_super_def)
    qed
  next
    case (Some sv)
    from ext_splice_agree [OF assms, of self src sT i sfx sv] Some False sup
    show ?thesis by (simp add: ext_super_def)
  qed
qed

lemma ext_step_agree:
  assumes "agree_off orph st1 st2" and "n \<noteq> orph"
  shows "agree_off orph (ext_step self src hp po sT st1 (m, n, i))
                        (ext_step self src hp po sT st2 (m, n, i))"
proof -
  from assms have same: "map_of (x_extcs st1) n = map_of (x_extcs st2) n"
    by (rule agree_lookup)
  have c: "x_content st1 = x_content st2" using assms(1) by (rule agree_content)
  show ?thesis
  proof (cases "map_of (x_extcs st2) n")
    case None
    with same c agree_set_content [OF assms(1), of "Replace1 (x_content st2) m i"] assms(1)
    show ?thesis by (simp add: ext_step_def)
  next
    case (Some v0)
    obtain sfx a1 where s1: "ext_suffix n st1 = (sfx, a1)" by (cases "ext_suffix n st1")
    obtain sfx' a2 where s2: "ext_suffix n st2 = (sfx', a2)" by (cases "ext_suffix n st2")
    from ext_suffix_agree [OF assms] s1 s2 have sfx: "sfx' = sfx" and a: "agree_off orph a1 a2"
      by simp_all
    obtain v b1 where u1: "ext_super self src sT n i sfx v0 a1 = (v, b1)"
      by (cases "ext_super self src sT n i sfx v0 a1")
    obtain v' b2 where u2: "ext_super self src sT n i sfx v0 a2 = (v', b2)"
      by (cases "ext_super self src sT n i sfx v0 a2")
    from ext_super_agree [OF a assms(2), of self src sT i sfx v0] u1 u2
    have v: "v' = v" and b: "agree_off orph b1 b2" by simp_all
    let ?c1 = "if sfx \<noteq> []
               then b1\<lparr>x_extcs := AList.update (n @ sfx) v (x_extcs b1),
                      x_rec := (x_rec b1)(n @ sfx \<mapsto> 0)\<rparr>
               else b1"
    let ?c2 = "if sfx \<noteq> []
               then b2\<lparr>x_extcs := AList.update (n @ sfx) v (x_extcs b2),
                      x_rec := (x_rec b2)(n @ sfx \<mapsto> 0)\<rparr>
               else b2"
    have cc: "agree_off orph ?c1 ?c2"
      using b agree_set_suffixed [OF b, where k = "n @ sfx" and w = v and z = 0] by simp
    then have cont: "x_content ?c1 = x_content ?c2" by (rule agree_content)
    have fin: "\<And>t. agree_off orph (?c1\<lparr>x_content := t\<rparr>) (?c2\<lparr>x_content := t\<rparr>)"
      using cc by (rule agree_set_content)
    have e1: "ext_step self src hp po sT st1 (m, n, i) =
        ?c1\<lparr>x_content := Replace1 (x_content ?c1) m
           (if hp then DelimLeft self @ BlockTag self @ '' \"'' @ n @ ''\"''
                       @ DelimRight self @ v @ DelimLeft self @ ''/''
                       @ BlockTag self @ DelimRight self
            else Tag self (''template \"'' @ n @ sfx @ ''\" '' @ po))\<rparr>"
      using Some same s1 u1 by (simp add: ext_step_def Let_def)
    have e2: "ext_step self src hp po sT st2 (m, n, i) =
        ?c2\<lparr>x_content := Replace1 (x_content ?c2) m
           (if hp then DelimLeft self @ BlockTag self @ '' \"'' @ n @ ''\"''
                       @ DelimRight self @ v @ DelimLeft self @ ''/''
                       @ BlockTag self @ DelimRight self
            else Tag self (''template \"'' @ n @ sfx @ ''\" '' @ po))\<rparr>"
      using Some s2 u2 sfx v by (simp add: ext_step_def Let_def)
    show ?thesis unfolding e1 e2 cont by (rule fin)
  qed
qed

lemma ext_loop_agree:
  "agree_off orph st1 st2 \<Longrightarrow> \<forall>v\<in>set ms. fst (snd v) \<noteq> orph \<Longrightarrow>
   agree_off orph (ext_loop self src hp po ms st1) (ext_loop self src hp po ms st2)"
proof (induction ms arbitrary: st1 st2)
  case Nil
  then show ?case by (simp add: ext_loop_def)
next
  case (Cons v ms)
  obtain m n i where v: "v = (m, n, i)" by (cases v)
  from Cons.prems v have n: "n \<noteq> orph" and rest: "\<forall>v\<in>set ms. fst (snd v) \<noteq> orph" by auto
  have unf: "\<And>st. ext_loop self src hp po (v # ms) st =
        ext_loop self src hp po ms (ext_step self src hp po (superTag_of self) st v)"
    by (simp add: ext_loop_def)
  from ext_step_agree [OF Cons.prems(1) n, of self src hp po "superTag_of self" m i] v
  have "agree_off orph (ext_step self src hp po (superTag_of self) st1 v)
                       (ext_step self src hp po (superTag_of self) st2 v)" by simp
  from Cons.IH [OF this rest] show ?case by (simp add: unf)
qed

lemma ReplaceAllStringFunc_cong:
  assumes "\<forall>v\<in>set (FindAllStringSubmatch p s). f (fst v) = g (fst v)"
  shows "ReplaceAllStringFunc p s f = ReplaceAllStringFunc p s g"
proof -
  obtain ms e where r: "rsplit p s = (ms, e)" by (cases "rsplit p s")
  with assms have "\<forall>x\<in>set ms. f (fst (snd x)) = g (fst (snd x))"
    by (simp add: FindAllStringSubmatch_def)
  then have m: "map (\<lambda>(b, v). b @ f (fst v)) ms = map (\<lambda>(b, v). b @ g (fst v)) ms"
    by (intro map_cong) auto
  show ?thesis unfolding ReplaceAllStringFunc_def r prod.case m ..
qed

lemma ext_filled_delete:
  assumes "\<forall>v\<in>set (FindAllStringSubmatch (rplTagRegex self) content). placeholder_name (fst v) \<noteq> orph"
  shows "ext_filled self content (AList.delete orph extcs) = ext_filled self content extcs"
  unfolding ext_filled_def
  by (rule ReplaceAllStringFunc_cong) (use assms in \<open>simp add: AList.delete_conv'\<close>)


section \<open>The super marker\<close>

text \<open>
  Claim C2, as the specification words it: when the block body of the newly loaded
  layout contains the super marker, the marker in that body is replaced by the
  descendant's content.  The code looks for the marker in the descendant's body instead.
  Here the layout's block \<open>b\<close> has the body \<open>A{{Super}}B\<close> and the descendant defined
  \<open>b\<close> as \<open>X\<close>: the block resolves to \<open>X\<close>, not to \<open>AXB\<close>, and the layout's body is
  dropped.
\<close>

theorem super_in_layout_counterexample:
  "Contains ''A{{Super}}B'' (superTag_of std) \<and>
   (case ParseExtend std (disk []) ''{{Block \"b\"}}A{{Super}}B{{/Block}}'' [(''b'', ''X'')] [] [] [] of
      ((content, m), extcs, subcs, rd) \<Rightarrow>
        content = ''{{template \"b\" .}}'' \<and> extcs = [(''b'', ''X'')] \<and>
        map_of extcs ''b'' \<noteq> Some (Replace1 ''A{{Super}}B'' (superTag_of std) ''X''))"
  by code_simp

text \<open>
  Claim C2, amended: at the first occurrence of a block \<open>b\<close> in the layout for which the
  descendant has a definition \<open>v\<close>, the block resolves to \<open>v\<close> with the first super marker
  replaced by the include-expanded inner text of the layout's block when \<open>v\<close> contains
  the marker, and to \<open>v\<close> unchanged otherwise.
\<close>

theorem super_in_descendant:
  assumes "map_of (x_extcs st) b = Some v" and "x_rec st b = None" and "x_sup st b = None"
    and "superTag \<noteq> []"
  shows "map_of (x_extcs (ext_step self src hp po superTag st (matched, b, inner))) b =
         Some (if Contains v superTag
               then Replace1 v superTag
                      (fst (ContainsSubTpl self src inner (x_subcs st) (x_reads st)))
               else v)"
  using assms
  by (auto simp: ext_step_def ext_suffix_def ext_super_def ext_splice_def AList.update_conv'
      split: prod.splits)

definition st_hi :: xstate where
  "st_hi = \<lparr>x_content = ''<div>{{Block \"x\"}}again{{/Block}}</div>'',
            x_extcs = [(''x'', ''hi {{Super}}!'')], x_rec = Map.empty, x_sup = Map.empty,
            x_subcs = [], x_reads = []\<rparr>"

theorem super_in_descendant_witness:
  "map_of (x_extcs st_hi) ''x'' = Some ''hi {{Super}}!'' \<and> x_rec st_hi ''x'' = None \<and>
   x_sup st_hi ''x'' = None \<and> ''{{Super}}'' \<noteq> [] \<and>
   map_of (x_extcs (ext_step std (disk []) False ''.'' ''{{Super}}'' st_hi
                      (''{{Block \"x\"}}again{{/Block}}'', ''x'', ''again''))) ''x'' =
   Some ''hi again!''"
proof -
  have h1: "map_of (x_extcs st_hi) ''x'' = Some ''hi {{Super}}!''" by (simp add: st_hi_def)
  have h2: "x_rec st_hi ''x'' = None" by (simp add: st_hi_def)
  have h3: "x_sup st_hi ''x'' = None" by (simp add: st_hi_def)
  have h4: "''{{Super}}'' \<noteq> []" by simp
  have e: "(if Contains ''hi {{Super}}!'' ''{{Super}}''
            then Replace1 ''hi {{Super}}!'' ''{{Super}}''
                   (fst (ContainsSubTpl std (disk []) ''again'' (x_subcs st_hi) (x_reads st_hi)))
            else ''hi {{Super}}!'') = ''hi again!''"
    by code_simp
  from super_in_descendant [OF h1 h2 h3 h4, of std "disk []" False "''.''"
      "''{{Block \"x\"}}again{{/Block}}''" "''again''"] e h1 h2 h3 h4
  show ?thesis by simp
qed

section \<open>Override precedence\<close>

text \<open>
  Claim C1.  The child's text \<open>content\<close> begins with an Extend tag for \<open>p\<close>; its last
  definition of block \<open>b\<close> has the body \<open>X\<close>, which contains the super marker.  The layout
  \<open>p\<close> is readable, extends nothing, and (after its placeholders are filled) has one
  Block occurrence named \<open>b\<close>, with inline body \<open>Y\<close>; no other occurrence in it is named so
  that a numeric suffix on its name gives \<open>b\<close>.  \<open>X\<close> and \<open>Y\<close> have no Include tags.  Then the
  chain resolves, and the content of block \<open>b\<close> in the resolved block set is \<open>X\<close> with the
  first super marker replaced by \<open>Y\<close>.  \<open>chain_loop\<close> is called as \<open>parse\<close> calls it.
\<close>

theorem override_precedence:
  assumes child: "FindAllStringSubmatch (blkTagRegex self) content = cs1 @ (cm, b, X) # cs2"
    and last_def: "\<forall>v\<in>set cs2. fst (snd v) \<noteq> b"
    and X: "FindAllStringSubmatch (incTagRegex self) X = []"
    and super: "SuperTag self \<noteq> []" "Contains X (superTag_of self)"
    and parent: "RawContent self src (TmplPath self (p @ Ext self)) = Inr pc"
    and top: "FindStartSubmatch (extTagRegex self) pc = []"
    and blocks: "FindAllStringSubmatch (blkTagRegex self)
                   (ext_filled self pc (fst (snd (ParseBlock self src content [] [] (reads s)))))
                 = ps1 @ (pm, b, Y) # ps2"
    and others: "\<forall>v\<in>set (ps1 @ ps2).
                   fst (snd v) \<noteq> b \<and> (\<forall>k. fst (snd v) @ ''.'' @ show_nat k \<noteq> b)"
    and Y: "FindAllStringSubmatch (incTagRegex self) Y = []"
  shows "\<exists>content' subcs' extcs' s'.
           chain_loop 10 self src key content [(em, p, po)] [] [] s =
             (Inr (content', subcs', extcs'), s') \<and>
           map_of extcs' b = Some (Replace1 X (superTag_of self) Y)"
proof -
  obtain subcs1 extcs1 rd1 where pb: "ParseBlock self src content [] [] (reads s) = (subcs1, extcs1, rd1)"
    by (cases "ParseBlock self src content [] [] (reads s)") auto
  let ?f = "TmplPath self (p @ Ext self)"
  obtain content2 m2 extcs2 subcs2 rd2 where
    pe: "ParseExtend self src pc extcs1 po subcs1 (rd1 @ [?f]) = ((content2, m2), extcs2, subcs2, rd2)"
    by (cases "ParseExtend self src pc extcs1 po subcs1 (rd1 @ [?f])") auto
  from pe top have m2: "m2 = []" by (simp add: ParseExtend_def Let_def)
  from ParseBlock_defines [OF child last_def X, of src "[]" "[]" "reads s"] pb
  have x1: "map_of extcs1 b = Some X" by simp
  from blocks pb have blocks1: "FindAllStringSubmatch (blkTagRegex self) (ext_filled self pc extcs1)
      = ps1 @ (pm, b, Y) # ps2" by simp
  from ParseExtend_override [OF x1 super blocks1 others Y, of src po subcs1 "rd1 @ [?f]"] pe
  have res: "map_of extcs2 b = Some (Replace1 X (superTag_of self) Y)" by simp
  have "chain_loop (Suc 9) self src key content [(em, p, po)] [] [] s =
        (Inr (content2, subcs2, extcs2), register ?f key (s\<lparr>reads := rd2\<rparr>))"
    using pb parent pe m2 by (simp add: numeral_eq_Suc)
  then have "chain_loop 10 self src key content [(em, p, po)] [] [] s =
        (Inr (content2, subcs2, extcs2), register ?f key (s\<lparr>reads := rd2\<rparr>))"
    by (simp add: numeral_eq_Suc)
  with res show ?thesis by blast
qed

definition layout_L :: string where
  "layout_L = ''<div>{{Block \"x\"}}again{{/Block}}</div>''"

definition child_C2 :: string where
  "child_C2 = ''{{Extend \"L\"}}{{Block \"x\"}}hi {{Super}}!{{/Block}}''"

theorem override_precedence_witness:
  "FindAllStringSubmatch (blkTagRegex std) child_C2 =
     [(''{{Block \"x\"}}hi {{Super}}!{{/Block}}'', ''x'', ''hi {{Super}}!'')] \<and>
   Contains ''hi {{Super}}!'' (superTag_of std) \<and>
   RawContent std (disk [(''/t/L.html'', layout_L)]) (TmplPath std (''L'' @ Ext std)) = Inr layout_L \<and>
   FindAllStringSubmatch (blkTagRegex std) layout_L =
     [(''{{Block \"x\"}}again{{/Block}}'', ''x'', ''again'')] \<and>
   (\<exists>content' subcs' extcs' s'.
      chain_loop 10 std (disk [(''/t/L.html'', layout_L)]) ''/t/C2.html'' child_C2
        [(''{{Extend \"L\"}}'', ''L'', [])] [] [] new_engine =
        (Inr (content', subcs', extcs'), s') \<and>
      map_of extcs' ''x'' = Some ''hi again!'')"
proof -
  let ?src = "disk [(''/t/L.html'', layout_L)]"
  have h1: "FindAllStringSubmatch (blkTagRegex std) child_C2 =
     [] @ (''{{Block \"x\"}}hi {{Super}}!{{/Block}}'', ''x'', ''hi {{Super}}!'') # []"
    by code_simp
  have h2: "\<forall>v\<in>set ([] :: submatch list). fst (snd v) \<noteq> ''x''" by simp
  have h3: "FindAllStringSubmatch (incTagRegex std) ''hi {{Super}}!'' = []" by code_simp
  have h4: "SuperTag std \<noteq> []" by code_simp
  have h5: "Contains ''hi {{Super}}!'' (superTag_of std)" by code_simp
  have h6: "RawContent std ?src (TmplPath std (''L'' @ Ext std)) = Inr layout_L" by code_simp
  have h7: "FindStartSubmatch (extTagRegex std) layout_L = []" by code_simp
  have h8: "FindAllStringSubmatch (blkTagRegex std)
       (ext_filled std layout_L (fst (snd (ParseBlock std ?src child_C2 [] [] (reads new_engine))))) =
     [] @ (''{{Block \"x\"}}again{{/Block}}'', ''x'', ''again'') # []"
    by code_simp
  have h9: "\<forall>v\<in>set ([] @ [] :: submatch list).
       fst (snd v) \<noteq> ''x'' \<and> (\<forall>k. fst (snd v) @ ''.'' @ show_nat k \<noteq> ''x'')" by simp
  have h10: "FindAllStringSubmatch (incTagRegex std) ''again'' = []" by code_simp
  have r: "Replace1 ''hi {{Super}}!'' (superTag_of std) ''again'' = ''hi again!''" by code_simp
  have b: "FindAllStringSubmatch (blkTagRegex std) layout_L =
     [(''{{Block \"x\"}}again{{/Block}}'', ''x'', ''again'')]" by code_simp
  from override_precedence [OF h1 h2 h3 h4 h5 h6 h7 h8 h9 h10, of "''/t/C2.html''" "''{{Extend \"L\"}}''" "[]"] r
  have "\<exists>content' subcs' extcs' s'.
      chain_loop 10 std ?src ''/t/C2.html'' child_C2 [(''{{Extend \"L\"}}'', ''L'', [])] [] [] new_engine =
        (Inr (content', subcs', extcs'), s') \<and>
      map_of extcs' ''x'' = Some ''hi again!''"
    by simp
  with h1 h5 h6 b show ?thesis by simp
qed

section \<open>Orphan pruning\<close>

text \<open>
  Claim C3.  A block \<open>orph\<close> that the descendants defined and that the layout references
  neither by a self-closing placeholder nor by a paired Block occurrence leaves no trace:
  \<open>ParseExtend\<close> returns the same content, the same Extend match, the same block set (as
  a map) and the same pool as it does when \<open>orph\<close> was never defined.  The block set that
  comes back has no entry \<open>orph\<close>, unless the name \<open>orph\<close> is that of a repeated layout
  block with its numeric suffix (the entry is then that block's, not the orphan's).  The
  hop where a child's blocks meet the nearest layout is the one that prunes them.
\<close>

theorem orphan_pruned:
  assumes holes: "\<forall>v\<in>set (FindAllStringSubmatch (rplTagRegex self) content).
                    placeholder_name (fst v) \<noteq> orph"
    and blocks: "\<forall>v\<in>set (FindAllStringSubmatch (blkTagRegex self) (ext_filled self content extcs)).
                   fst (snd v) \<noteq> orph"
  shows "fst (ParseExtend self src content (AList.delete orph extcs) po subcs rd) =
           fst (ParseExtend self src content extcs po subcs rd) \<and>
         map_of (fst (snd (ParseExtend self src content (AList.delete orph extcs) po subcs rd))) =
           map_of (fst (snd (ParseExtend self src content extcs po subcs rd))) \<and>
         snd (snd (ParseExtend self src content (AList.delete orph extcs) po subcs rd)) =
           snd (snd (ParseExtend self src content extcs po subcs rd)) \<and>
         ((\<forall>v\<in>set (FindAllStringSubmatch (blkTagRegex self) (ext_filled self content extcs)).
              \<forall>k. fst (snd v) @ ''.'' @ show_nat k \<noteq> orph) \<longrightarrow>
          map_of (fst (snd (ParseExtend self src content extcs po subcs rd))) orph = None)"
proof -
  let ?hp = "FindStartSubmatch (extTagRegex self) content \<noteq> []"
  let ?po = "if po = [] then ''.'' else po"
  let ?c = "ext_filled self content extcs"
  let ?ms = "FindAllStringSubmatch (blkTagRegex self) ?c"
  let ?st0 = "\<lparr>x_content = ?c, x_extcs = extcs, x_rec = Map.empty,
               x_sup = Map.empty, x_subcs = subcs, x_reads = rd\<rparr>"
  let ?st0' = "\<lparr>x_content = ?c, x_extcs = AList.delete orph extcs, x_rec = Map.empty,
               x_sup = Map.empty, x_subcs = subcs, x_reads = rd\<rparr>"
  let ?A = "ext_loop self src ?hp ?po ?ms ?st0"
  let ?B = "ext_loop self src ?hp ?po ?ms ?st0'"
  have fill: "ext_filled self content (AList.delete orph extcs) = ?c"
    using holes by (rule ext_filled_delete)
  have "agree_off orph ?st0 ?st0'"
    by (simp add: agree_off_def AList.delete_conv')
  from ext_loop_agree [OF this blocks]
  have ag: "agree_off orph ?A ?B" .
  have pe: "ParseExtend self src content extcs po subcs rd =
      ((x_content ?A, FindStartSubmatch (extTagRegex self) content),
       filter (\<lambda>(k, v). x_rec ?A k \<noteq> None) (x_extcs ?A), x_subcs ?A, x_reads ?A)"
    by (simp add: ParseExtend_def Let_def)
  have pe': "ParseExtend self src content (AList.delete orph extcs) po subcs rd =
      ((x_content ?B, FindStartSubmatch (extTagRegex self) content),
       filter (\<lambda>(k, v). x_rec ?B k \<noteq> None) (x_extcs ?B), x_subcs ?B, x_reads ?B)"
    by (simp add: ParseExtend_def Let_def fill)
  have maps: "map_of (filter (\<lambda>(k, v). x_rec ?B k \<noteq> None) (x_extcs ?B)) =
              map_of (filter (\<lambda>(k, v). x_rec ?A k \<noteq> None) (x_extcs ?A))"
  proof
    fix k
    from ag have r: "x_rec ?A = x_rec ?B"
      and e: "k \<noteq> orph \<or> x_rec ?A orph \<noteq> None \<Longrightarrow> map_of (x_extcs ?A) k = map_of (x_extcs ?B) k"
      by (simp_all add: agree_off_def)
    show "map_of (filter (\<lambda>(k, v). x_rec ?B k \<noteq> None) (x_extcs ?B)) k =
          map_of (filter (\<lambda>(k, v). x_rec ?A k \<noteq> None) (x_extcs ?A)) k"
    proof (cases "x_rec ?A k = None")
      case True
      with r show ?thesis by (simp add: map_of_filter_key)
    next
      case False
      then have "k \<noteq> orph \<or> x_rec ?A orph \<noteq> None" by auto
      from e [OF this] r False show ?thesis by (simp add: map_of_filter_key)
    qed
  qed
  have gone: "map_of (filter (\<lambda>(k, v). x_rec ?A k \<noteq> None) (x_extcs ?A)) orph = None"
    if "\<forall>v\<in>set ?ms. \<forall>k. fst (snd v) @ ''.'' @ show_nat k \<noteq> orph"
  proof -
    from that blocks
    have "\<forall>v\<in>set ?ms. fst (snd v) \<noteq> orph \<and> (\<forall>k. fst (snd v) @ ''.'' @ show_nat k \<noteq> orph)"
      by blast
    from ext_loop_frame [OF this, of self src ?hp ?po ?st0]
    have "x_rec ?A orph = None" by simp
    then show ?thesis by (simp add: map_of_filter_key)
  qed
  from ag have "x_content ?A = x_content ?B" "x_subcs ?A = x_subcs ?B" "x_reads ?A = x_reads ?B"
    by (simp_all add: agree_off_def)
  with maps gone show ?thesis unfolding pe pe' by simp
qed

theorem orphan_pruned_witness:
  "FindAllStringSubmatch (rplTagRegex std) layout_L = [] \<and>
   FindAllStringSubmatch (blkTagRegex std) layout_L =
     [(''{{Block \"x\"}}again{{/Block}}'', ''x'', ''again'')] \<and>
   fst (ParseExtend std (disk []) layout_L [(''x'', ''hi {{Super}}!'')] [] [] []) =
     fst (ParseExtend std (disk []) layout_L [(''x'', ''hi {{Super}}!''), (''o'', ''orphan'')] [] [] []) \<and>
   fst (snd (ParseExtend std (disk []) layout_L [(''x'', ''hi {{Super}}!''), (''o'', ''orphan'')] [] [] []))
     = [(''x'', ''hi again!'')] \<and>
   map_of (fst (snd (ParseExtend std (disk []) layout_L
                       [(''x'', ''hi {{Super}}!''), (''o'', ''orphan'')] [] [] []))) ''o'' = None"
proof -
  let ?e = "[(''x'', ''hi {{Super}}!''), (''o'', ''orphan'')]"
  have f: "ext_filled std layout_L ?e = layout_L" by code_simp
  have h0: "FindAllStringSubmatch (rplTagRegex std) layout_L = []" by code_simp
  have b: "FindAllStringSubmatch (blkTagRegex std) layout_L =
     [(''{{Block \"x\"}}again{{/Block}}'', ''x'', ''again'')]" by code_simp
  have h1: "\<forall>v\<in>set (FindAllStringSubmatch (rplTagRegex std) layout_L).
              placeholder_name (fst v) \<noteq> ''o''" by (simp add: h0)
  have h2: "\<forall>v\<in>set (FindAllStringSubmatch (blkTagRegex std) (ext_filled std layout_L ?e)).
              fst (snd v) \<noteq> ''o''" by (simp add: f b)
  have h3: "\<forall>v\<in>set (FindAllStringSubmatch (blkTagRegex std) (ext_filled std layout_L ?e)).
              \<forall>k. fst (snd v) @ ''.'' @ show_nat k \<noteq> ''o''" by (simp add: f b)
  have d: "AList.delete ''o'' ?e = [(''x'', ''hi {{Super}}!'')]" by code_simp
  have r: "fst (snd (ParseExtend std (disk []) layout_L ?e [] [] [])) = [(''x'', ''hi again!'')]"
    by code_simp
  from orphan_pruned [OF h1 h2, of "disk []" "[]" "[]" "[]"] h3 d r h0 b
  show ?thesis by simp
qed

section \<open>Facts about the inclusion resolver\<close>












section \<open>Cycle safety of include expansion\<close>




section \<open>Facts about the function clips\<close>










lemma calls_heap_upd [simp]: "calls (heap_upd a f s) = calls s"
  by (simp add: heap_upd_def)

lemma calls_store_child [simp]: "calls (store_child name key t s) = calls s"
  by (simp add: store_child_def alloc_def heap_upd_def split: option.splits)

lemma calls_register [simp]: "calls (register f key s) = calls s"
  by (simp add: register_def alloc_def heap_upd_def split: option.splits)











section \<open>Function memoization\<close>





section \<open>Facts about the cache\<close>




























lemma reads_register [simp]: "reads (register f key s) = reads s"
  by (simp add: register_def alloc_def heap_upd_def split: option.splits)

lemma reads_store_child [simp]: "reads (store_child name key t s) = reads s"
  by (simp add: store_child_def alloc_def heap_upd_def split: option.splits)

lemma reads_heap_upd [simp]: "reads (heap_upd a f s) = reads s"
  by (simp add: heap_upd_def)










section \<open>Cache hits\<close>







section \<open>Facts about errors during a compile\<close>

text \<open>
  Names for three stages of \<open>parse\<close> on a name that is not cached: \<open>new_tree\<close> is the
  template \<open>t\<close> of lines 305 to 314, with the helper and caller functions bound;
  \<open>chain_of\<close> is the loop of lines 326 to 347 as \<open>parse\<close> runs it on the content of the
  file; \<open>composed\<close> is the document that line 351 hands to the evaluator.
\<close>

definition new_tree :: "Standard \<Rightarrow> ctx \<Rightarrow> string \<Rightarrow> engine \<Rightarrow> tmpl" where
  "new_tree self c name s =
     bindFuncs (NewTemplate (CleanTemplateName self (TmplPath self (name @ Ext self))))
       (setFunc (fst (rel_of (TmplPath self (name @ Ext self)) s)) (callerFuncs self c))"

definition chain_of ::
  "Standard \<Rightarrow> source \<Rightarrow> string \<Rightarrow> string \<Rightarrow> engine \<Rightarrow> (string + string \<times> pool \<times> pool) \<times> engine"
where
  "chain_of self src name content s =
     chain_loop 10 self src (TmplPath self (name @ Ext self))
       (ReplaceAllStringFunc (rplTagRegex self) content (\<lambda>match. []))
       (FindStartSubmatch (extTagRegex self) content) [] []
       ((snd (rel_of (TmplPath self (name @ Ext self)) s))
          \<lparr>reads := reads (snd (rel_of (TmplPath self (name @ Ext self)) s))
                      @ [TmplPath self (name @ Ext self)]\<rparr>)"

definition composed ::
  "Standard \<Rightarrow> source \<Rightarrow> ctx \<Rightarrow> string \<Rightarrow> string \<Rightarrow> pool \<Rightarrow> engine \<Rightarrow> string" where
  "composed self src c name content subcs s =
     fst (ContainsFunctionResult self c name
            (fst (ContainsSubTpl self src content subcs (reads s))) [] (calls s))"

text \<open>
  What \<open>parse\<close> returns when the file of the name or a layout cannot be read, when the
  evaluator rejects the composed document, and when the document has no Extend tag and
  its first Include tag names a file that cannot be read.
\<close>

lemma diag_accepted: "tplParse ev t text = None \<Longrightarrow> diag ev t text = Some (t\<lparr>tbody := text\<rparr>)"
  by (simp add: diag_def Parse_def)

lemma parse_unreadable:
  assumes "cache_hit s (TmplPath self (name @ Ext self)) = None"
    and "RawContent self src (TmplPath self (name @ Ext self)) = Inl e"
  shows "parse self ev src c name s =
           ((diag ev (new_tree self c name s) e, Some e),
            (snd (rel_of (TmplPath self (name @ Ext self)) s))
              \<lparr>reads := reads (snd (rel_of (TmplPath self (name @ Ext self)) s))
                          @ [TmplPath self (name @ Ext self)]\<rparr>)"
  using assms by (simp add: parse_def new_tree_def Let_def split: prod.splits)

lemma chain_loop_unreadable:
  "RawContent self src (TmplPath self (fst (snd m0) @ Ext self)) = Inl e \<Longrightarrow>
   fst (chain_loop (Suc n) self src key content (m0 # ms) subcs extcs s) = Inl e"
  by (simp split: prod.splits)

lemma parse_layout_unreadable:
  assumes "cache_hit s (TmplPath self (name @ Ext self)) = None"
    and "RawContent self src (TmplPath self (name @ Ext self)) = Inr content"
    and "fst (chain_of self src name content s) = Inl e"
  shows "fst (parse self ev src c name s) = (diag ev (new_tree self c name s) e, Some e)"
proof -
  let ?key = "TmplPath self (name @ Ext self)"
  obtain a s1 where ro: "rel_of ?key s = (a, s1)" by (cases "rel_of ?key s")
  have t: "new_tree self c name s =
      bindFuncs (NewTemplate (CleanTemplateName self ?key)) (setFunc a (callerFuncs self c))"
    using ro by (simp add: new_tree_def)
  obtain s2 where "chain_of self src name content s = (Inl e, s2)"
    using assms(3) by (cases "chain_of self src name content s") auto
  with ro
  have cl: "chain_loop 10 self src ?key (ReplaceAllStringFunc (rplTagRegex self) content (\<lambda>match. []))
              (FindStartSubmatch (extTagRegex self) content) [] [] (s1\<lparr>reads := reads s1 @ [?key]\<rparr>)
            = (Inl e, s2)"
    by (simp add: chain_of_def)
  with assms(1,2) ro t show ?thesis
    by (simp add: parse_def Let_def)
qed

lemma parse_rejected:
  assumes "cache_hit s (TmplPath self (name @ Ext self)) = None"
    and "RawContent self src (TmplPath self (name @ Ext self)) = Inr content"
    and "chain_of self src name content s = (Inr (content1, subcs, extcs), s2)"
    and "tplParse ev (new_tree self c name s) (composed self src c name content1 subcs s2) = Some e"
  shows "fst (parse self ev src c name s) =
           (diag ev (new_tree self c name s)
              (''Parse '' @ TmplPath self (name @ Ext self) @ '' err: '' @ e), Some e)"
proof -
  let ?key = "TmplPath self (name @ Ext self)"
  obtain a s1 where ro: "rel_of ?key s = (a, s1)" by (cases "rel_of ?key s")
  have t: "new_tree self c name s =
      bindFuncs (NewTemplate (CleanTemplateName self ?key)) (setFunc a (callerFuncs self c))"
    using ro by (simp add: new_tree_def)
  from assms(3) ro
  have cl: "chain_loop 10 self src ?key (ReplaceAllStringFunc (rplTagRegex self) content (\<lambda>match. []))
              (FindStartSubmatch (extTagRegex self) content) [] [] (s1\<lparr>reads := reads s1 @ [?key]\<rparr>)
            = (Inr (content1, subcs, extcs), s2)"
    by (simp add: chain_of_def)
  obtain content2 subcs1 rd1 where
    i: "ContainsSubTpl self src content1 subcs (reads s2) = (content2, subcs1, rd1)"
    by (cases "ContainsSubTpl self src content1 subcs (reads s2)") auto
  obtain content3 clips calls1 where
    f: "ContainsFunctionResult self c name content2 [] (calls s2) = (content3, clips, calls1)"
    by (cases "ContainsFunctionResult self c name content2 [] (calls s2)") auto
  from i f have "composed self src c name content1 subcs s2 = content3"
    by (simp add: composed_def)
  with assms(4) have "Parse ev (new_tree self c name s) content3 = Inl e"
    by (simp add: Parse_def)
  with i f have "fst (compile_tail self ev src c name ?key a (new_tree self c name s)
                        content1 subcs extcs s2) =
      (diag ev (new_tree self c name s) (''Parse '' @ ?key @ '' err: '' @ e), Some e)"
    by (simp add: compile_tail_def)
  with assms(1,2) ro cl t show ?thesis
    by (simp add: parse_def Let_def)
qed

lemma inc_loop_unreadable:
  assumes "map_of subcs (inc_file self v) = None"
    and "RawContent self src (inc_file self v) = Inl e"
  shows "inc_loop self src (v # vs) content subcs rd =
           (''RenderTemplate '' @ inc_file self v @ '' read err: '' @ e, subcs, rd @ [inc_file self v])"
  using assms by simp

lemma parse_include_unreadable:
  assumes "cache_hit s (TmplPath self (name @ Ext self)) = None"
    and "RawContent self src (TmplPath self (name @ Ext self)) = Inr content"
    and "FindStartSubmatch (extTagRegex self) content = []"
    and "FindAllStringSubmatch (incTagRegex self)
           (ReplaceAllStringFunc (rplTagRegex self) content (\<lambda>match. [])) = v # vs"
    and "RawContent self src (inc_file self v) = Inl e"
    and "doc = fst (ContainsFunctionResult self c name
                 (''RenderTemplate '' @ inc_file self v @ '' read err: '' @ e) [] (calls s))"
    and "tplParse ev (new_tree self c name s) doc = None"
  shows "fst (parse self ev src c name s) = (Some ((new_tree self c name s)\<lparr>tbody := doc\<rparr>), None)"
proof -
  let ?key = "TmplPath self (name @ Ext self)"
  obtain a s1 where ro: "rel_of ?key s = (a, s1)" by (cases "rel_of ?key s")
  then have c1: "calls s1 = calls s"
    by (auto simp: rel_of_def alloc_def split: option.splits)
  let ?s2 = "s1\<lparr>reads := reads s1 @ [?key]\<rparr>"
  let ?c0 = "ReplaceAllStringFunc (rplTagRegex self) content (\<lambda>match. [])"
  let ?d = "''RenderTemplate '' @ inc_file self v @ '' read err: '' @ e"
  have cl: "chain_loop 10 self src ?key ?c0 (FindStartSubmatch (extTagRegex self) content) [] [] ?s2
            = (Inr (?c0, [], []), ?s2)"
    using assms(3) by (simp add: numeral_eq_Suc)
  have i: "ContainsSubTpl self src ?c0 [] (reads ?s2) = (?d, [], reads ?s2 @ [inc_file self v])"
    using assms(4,5) by (simp add: ContainsSubTpl.simps)
  obtain clips calls1 where
    f: "ContainsFunctionResult self c name ?d [] (calls s) = (doc, clips, calls1)"
    using assms(6) by (cases "ContainsFunctionResult self c name ?d [] (calls s)") auto
  have t: "new_tree self c name s =
      bindFuncs (NewTemplate (CleanTemplateName self ?key)) (setFunc a (callerFuncs self c))"
    using ro by (simp add: new_tree_def)
  from assms(7) have p: "Parse ev (new_tree self c name s) doc = Inr ((new_tree self c name s)\<lparr>tbody := doc\<rparr>)"
    by (simp add: Parse_def)
  have "compile_tail self ev src c name ?key a (new_tree self c name s) ?c0 [] [] ?s2 =
      ((Some ((new_tree self c name s)\<lparr>tbody := doc\<rparr>), None),
       (heap_upd a (set_standalone ((new_tree self c name s)\<lparr>tbody := doc\<rparr>))
          (?s2\<lparr>reads := reads ?s2 @ [inc_file self v], calls := calls1\<rparr>))
         \<lparr>CachedRelation := AList.update ?key a
             (CachedRelation (?s2\<lparr>reads := reads ?s2 @ [inc_file self v], calls := calls1\<rparr>))\<rparr>)"
    unfolding compile_tail_def using i f p c1 by simp
  with assms(1,2) ro cl t show ?thesis
    by (simp add: parse_def Let_def)
qed



text \<open>
  \<open>Render\<close> and \<open>Fetch\<close> as functions of what \<open>parse\<close> returns.
\<close>

lemma render_of_error:
  "snd (fst (parse self ev src c name s)) = Some e \<Longrightarrow>
   fst (Render self ev src c name vals s) = Returned (Some e, [])"
  by (cases "parse self ev src c name s") (auto simp: Render_def split: option.splits)

lemma fetch_of_tree:
  "fst (fst (parse self ev src c name s)) = Some t \<Longrightarrow>
   fst (Fetch self ev src c name vals s) =
     Returned (execute ev (heap (snd (parse self ev src c name s))) t vals)"
  by (cases "parse self ev src c name s") (auto simp: Fetch_def)

lemma render_of_tree:
  "fst (parse self ev src c name s) = (Some t, None) \<Longrightarrow>
   fst (Render self ev src c name vals s) =
     Returned (snd (tplExecute ev (heap (snd (parse self ev src c name s))) t vals),
               fst (tplExecute ev (heap (snd (parse self ev src c name s))) t vals))"
  by (cases "parse self ev src c name s") (auto simp: Render_def split: prod.splits)

text \<open>
  Files for the examples: \<open>c\<close> extends a layout that does not exist, \<open>b\<close> has an action
  that is never closed, \<open>m\<close> includes a file that does not exist; in \<open>mended_disk\<close> the
  missing files \<open>x\<close> and \<open>nope\<close> are there.
\<close>

definition err_disk :: source where
  "err_disk = disk [(''/t/c.html'', ''{{Extend \"lay\"}}x''),
                    (''/t/b.html'', ''A{{B''),
                    (''/t/m.html'', ''M{{Include \"nope\"}}'')]"


section \<open>Failed compiles\<close>








section \<open>The block helpers\<close>

text \<open>
  The function map of a tree is set when the template is created and is not changed by
  parsing, by the loops over the sub-templates and blocks, or by building a diagnostic.
\<close>

lemma Parse_tfuncs: "Parse ev t x = Inr t' \<Longrightarrow> tfuncs t' = tfuncs t"
  by (auto simp: Parse_def split: option.splits)

lemma diag_tfuncs: "diag ev t x = Some t' \<Longrightarrow> tfuncs t' = tfuncs t"
  by (auto simp: diag_def split: sum.splits dest: Parse_tfuncs)

lemma assoc_parse_tfuncs: "assoc_parse ev t n x = Inr t' \<Longrightarrow> tfuncs t' = tfuncs t"
  by (auto simp: assoc_parse_def split: option.splits)

lemma assoc_diag_tfuncs: "tfuncs (assoc_diag ev t n x) = tfuncs t"
  by (auto simp: assoc_diag_def split: sum.splits dest: assoc_parse_tfuncs)

lemma sub_loop_tfuncs:
  "sub_loop self ev c orig key subcs tmpl clips s = ((e, tmpl', clips'), s') \<Longrightarrow>
   tfuncs tmpl' = tfuncs tmpl"
proof (induction subcs arbitrary: tmpl clips s)
  case Nil
  then show ?case by auto
next
  case (Cons p subcs)
  obtain name subc where p: "p = (name, subc)" by (cases p)
  show ?case
  proof (cases "child_tree s name")
    case (Some act)
    obtain a ct where act: "act = (a, ct)" by (cases act)
    from Cons.prems p Some act
    have "sub_loop self ev c orig key subcs (tmpl\<lparr>tassoc := tassoc tmpl @ [(name, tbody ct)]\<rparr>) clips
            (heap_upd a (set_Rel key) s) = ((e, tmpl', clips'), s')" by simp
    from Cons.IH [OF this] show ?thesis by simp
  next
    case None
    show ?thesis
    proof (cases "name = tname tmpl")
      case True
      with Cons.prems p None
      have "sub_loop self ev c orig key subcs tmpl clips (store_child name key tmpl s)
            = ((e, tmpl', clips'), s')" by simp
      from Cons.IH [OF this] show ?thesis .
    next
      case False
      obtain subc1 clips1 calls1 where
        f: "ContainsFunctionResult self c orig subc clips (calls s) = (subc1, clips1, calls1)"
        by (cases "ContainsFunctionResult self c orig subc clips (calls s)") auto
      show ?thesis
      proof (cases "assoc_parse ev tmpl name (define_wrap self name subc1)")
        case (Inl err)
        with Cons.prems p None False f
        have "tmpl' = assoc_diag ev tmpl name (''Parse File '' @ name @ '' err: '' @ err)" by auto
        then show ?thesis by (simp add: assoc_diag_tfuncs)
      next
        case (Inr tm)
        with Cons.prems p None False f
        have "sub_loop self ev c orig key subcs tm clips1
                (store_child name key ((NewAssoc tmpl name)\<lparr>tbody := define_wrap self name subc1\<rparr>)
                   (s\<lparr>calls := calls1\<rparr>)) = ((e, tmpl', clips'), s')" by simp
        from Cons.IH [OF this] assoc_parse_tfuncs [OF Inr] show ?thesis by simp
      qed
    qed
  qed
qed

lemma blk_defs_tfuncs:
  "blk_defs self ev c orig a extcs tmpl clips s = ((e, tmpl', clips'), s') \<Longrightarrow>
   tfuncs tmpl' = tfuncs tmpl"
proof (induction extcs arbitrary: tmpl clips s)
  case Nil
  then show ?case by auto
next
  case (Cons p extcs)
  obtain name extc where p: "p = (name, extc)" by (cases p)
  show ?case
  proof (cases "name = tname tmpl")
    case True
    with Cons.prems p
    have "blk_defs self ev c orig a extcs tmpl clips
            (heap_upd a (\<lambda>r. r\<lparr>Tpl0 := (Tpl0 r)\<lparr>Blocks := insert name (Blocks (Tpl0 r))\<rparr>\<rparr>) s)
          = ((e, tmpl', clips'), s')" by simp
    from Cons.IH [OF this] show ?thesis .
  next
    case False
    obtain extc1 clips1 calls1 where
      f: "ContainsFunctionResult self c orig extc clips (calls s) = (extc1, clips1, calls1)"
      by (cases "ContainsFunctionResult self c orig extc clips (calls s)") auto
    show ?thesis
    proof (cases "assoc_parse ev tmpl name (define_wrap self name extc1)")
      case (Inl err)
      with Cons.prems p False f
      have "tmpl' = assoc_diag ev tmpl name (''Parse Block '' @ name @ '' err: '' @ err)" by auto
      then show ?thesis by (simp add: assoc_diag_tfuncs)
    next
      case (Inr tm)
      with Cons.prems p False f
      have "blk_defs self ev c orig a extcs tm clips1
              (heap_upd a (\<lambda>r. r\<lparr>Tpl0 := (Tpl0 r)\<lparr>Blocks := insert name (Blocks (Tpl0 r))\<rparr>\<rparr>)
                 (s\<lparr>calls := calls1\<rparr>)) = ((e, tmpl', clips'), s')" by simp
      from Cons.IH [OF this] assoc_parse_tfuncs [OF Inr] show ?thesis by simp
    qed
  qed
qed

lemma compile_tail_tree:
  assumes "compile_tail self ev src c orig name a t content subcs extcs s = ((Some tm, err), s')"
  shows "tfuncs tm = tfuncs t \<and> (err = None \<longrightarrow> map_of (CachedRelation s') name = Some a)"
proof -
  obtain content1 subcs1 rd1 where
    i: "ContainsSubTpl self src content subcs (reads s) = (content1, subcs1, rd1)"
    by (cases "ContainsSubTpl self src content subcs (reads s)") auto
  obtain content2 clips calls1 where
    f: "ContainsFunctionResult self c orig content1 [] (calls s) = (content2, clips, calls1)"
    by (cases "ContainsFunctionResult self c orig content1 [] (calls s)") auto
  let ?s1 = "s\<lparr>reads := rd1, calls := calls1\<rparr>"
  show ?thesis
  proof (cases "Parse ev t content2")
    case (Inl e)
    with i f have "compile_tail self ev src c orig name a t content subcs extcs s =
        ((diag ev t (''Parse '' @ name @ '' err: '' @ e), Some e), ?s1)"
      by (simp add: compile_tail_def)
    with assms have "diag ev t (''Parse '' @ name @ '' err: '' @ e) = Some tm" "err = Some e"
      by auto
    then show ?thesis by (simp add: diag_tfuncs)
  next
    case (Inr tmpl)
    obtain e1 tmpl1 clips1 s2 where
      sl: "sub_loop self ev c orig name subcs1 tmpl clips ?s1 = ((e1, tmpl1, clips1), s2)"
      by (cases "sub_loop self ev c orig name subcs1 tmpl clips ?s1") auto
    from sub_loop_tfuncs [OF sl] Parse_tfuncs [OF Inr] have t1: "tfuncs tmpl1 = tfuncs t" by simp
    show ?thesis
    proof (cases e1)
      case (Some e)
      with i f Inr sl have "compile_tail self ev src c orig name a t content subcs extcs s =
          ((Some tmpl1, Some e), s2)"
        by (simp add: compile_tail_def)
      with assms t1 show ?thesis by auto
    next
      case None
      obtain e2 tmpl2 clips2 s3 where
        bd: "blk_defs self ev c orig a extcs tmpl1 clips1 s2 = ((e2, tmpl2, clips2), s3)"
        by (cases "blk_defs self ev c orig a extcs tmpl1 clips1 s2") auto
      from blk_defs_tfuncs [OF bd] t1 have t2: "tfuncs tmpl2 = tfuncs t" by simp
      show ?thesis
      proof (cases e2)
        case (Some e)
        with i f Inr sl None bd have "compile_tail self ev src c orig name a t content subcs extcs s =
            ((Some tmpl2, Some e), s3)"
          by (simp add: compile_tail_def)
        with assms t2 show ?thesis by auto
      next
        case no: None
        with i f Inr sl None bd have "compile_tail self ev src c orig name a t content subcs extcs s =
            ((Some tmpl2, None),
             (heap_upd a (set_standalone tmpl2) s3)\<lparr>CachedRelation := AList.update name a (CachedRelation s3)\<rparr>)"
          by (simp add: compile_tail_def)
        with assms t2 show ?thesis by (auto simp: AList.update_conv')
      qed
    qed
  qed
qed

lemma setFunc_lookup:
  "map_of (tfuncs (bindFuncs t (setFunc a fm))) ''hasBlock'' = Some (HasBlock a)"
  "map_of (tfuncs (bindFuncs t (setFunc a fm))) ''hasAnyBlock'' = Some (HasAnyBlock a)"
  by (simp_all add: bindFuncs_def setFunc_def AList.merge_conv' AList.update_conv')

lemma parse_tree:
  assumes "parse self ev src c name s = ((Some tm, err), s')"
  shows "\<exists>a. map_of (tfuncs tm) ''hasBlock'' = Some (HasBlock a) \<and>
             map_of (tfuncs tm) ''hasAnyBlock'' = Some (HasAnyBlock a) \<and>
             (err = None \<longrightarrow> map_of (CachedRelation s') (TmplPath self (name @ Ext self)) = Some a)"
proof -
  let ?key = "TmplPath self (name @ Ext self)"
  show ?thesis
  proof (cases "cache_hit s ?key")
    case (Some at)
    obtain a t where at: "at = (a, t)" by (cases at)
    with Some have "parse self ev src c name s =
        ((Some (bindFuncs t (setFunc a (callerFuncs self c))), None),
         heap_upd a (set_standalone (bindFuncs t (setFunc a (callerFuncs self c)))) s)"
      by (simp add: parse_def Let_def)
    with assms have tm: "tm = bindFuncs t (setFunc a (callerFuncs self c))"
      and s': "s' = heap_upd a (set_standalone (bindFuncs t (setFunc a (callerFuncs self c)))) s"
      by auto
    from Some at have "map_of (CachedRelation s) ?key = Some a"
      by (auto simp: cache_hit_def split: option.splits)
    with s' have "map_of (CachedRelation s') ?key = Some a" by (simp add: heap_upd_def)
    with tm setFunc_lookup [of t a "callerFuncs self c"] show ?thesis by blast
  next
    case None
    obtain a s1 where ro: "rel_of ?key s = (a, s1)" by (cases "rel_of ?key s")
    let ?t = "bindFuncs (NewTemplate (CleanTemplateName self ?key)) (setFunc a (callerFuncs self c))"
    let ?s2 = "s1\<lparr>reads := reads s1 @ [?key]\<rparr>"
    note look = setFunc_lookup [of "NewTemplate (CleanTemplateName self ?key)" a "callerFuncs self c"]
    show ?thesis
    proof (cases "RawContent self src ?key")
      case (Inl e)
      with None ro have "parse self ev src c name s = ((diag ev ?t e, Some e), ?s2)"
        by (simp add: parse_def Let_def)
      with assms have "diag ev ?t e = Some tm" "err = Some e" by auto
      with look diag_tfuncs [of ev ?t e tm] show ?thesis by auto
    next
      case (Inr content)
      let ?cl = "chain_loop 10 self src ?key
                   (ReplaceAllStringFunc (rplTagRegex self) content (\<lambda>match. []))
                   (FindStartSubmatch (extTagRegex self) content) [] [] ?s2"
      obtain res s3 where cl: "?cl = (res, s3)" by (cases ?cl)
      show ?thesis
      proof (cases res)
        case (Inl e)
        with None ro Inr cl have "parse self ev src c name s = ((diag ev ?t e, Some e), s3)"
          by (simp add: parse_def Let_def)
        with assms have "diag ev ?t e = Some tm" "err = Some e" by auto
        with look diag_tfuncs [of ev ?t e tm] show ?thesis by auto
      next
        case res: (Inr cse)
        obtain content1 subcs extcs where cse: "cse = (content1, subcs, extcs)" by (cases cse)
        with None ro Inr cl res
        have "parse self ev src c name s =
              compile_tail self ev src c name ?key a ?t content1 subcs extcs s3"
          by (simp add: parse_def Let_def)
        with assms
        have "compile_tail self ev src c name ?key a ?t content1 subcs extcs s3 = ((Some tm, err), s')"
          by simp
        from compile_tail_tree [OF this] look show ?thesis by auto
      qed
    qed
  qed
qed

lemma hasBlock_iff: "hasBlock tplInf blocks \<longleftrightarrow> (\<forall>b\<in>set blocks. b \<in> Blocks tplInf)"
  by (induction blocks) auto

lemma hasAnyBlock_iff: "hasAnyBlock tplInf blocks \<longleftrightarrow> (\<exists>b\<in>set blocks. b \<in> Blocks tplInf)"
  by (induction blocks) auto


text \<open>
  Claim C10.  Whenever \<open>parse\<close> returns a tree, on a compile as on a standalone hit, the
  tree's function map binds \<open>hasBlock\<close> and \<open>hasAnyBlock\<close> to the closures over one
  \<open>tplInfo\<close>, the standalone slot of the object \<open>rel\<close>; when \<open>parse\<close> returns no error that
  object is the cache entry of the name.  Called with a list of names, \<open>hasBlock\<close> is true
  exactly when all of them are in the \<open>Blocks\<close> of that slot, \<open>hasAnyBlock\<close> exactly when
  one of them is.
\<close>

theorem block_helpers_bound:
  assumes "parse self ev src c name s = ((Some tm, err), s')"
  shows "\<exists>a. map_of (tfuncs tm) ''hasBlock'' = Some (HasBlock a) \<and>
             map_of (tfuncs tm) ''hasAnyBlock'' = Some (HasAnyBlock a) \<and>
             (err = None \<longrightarrow> map_of (CachedRelation s') (TmplPath self (name @ Ext self)) = Some a) \<and>
             (\<forall>h blocks.
                call_func h (HasBlock a) blocks = Some (\<forall>b\<in>set blocks. b \<in> Blocks (Tpl0 (h ! a))) \<and>
                call_func h (HasAnyBlock a) blocks = Some (\<exists>b\<in>set blocks. b \<in> Blocks (Tpl0 (h ! a))))"
  using parse_tree [OF assms] by (auto simp: hasBlock_iff hasAnyBlock_iff)

definition c2_disk :: source where
  "c2_disk = disk [(''/t/L.html'', layout_L), (''/t/C2.html'', child_C2 @ ''{{Block \"o\"}}orphan{{/Block}}'')]"

theorem block_helpers_bound_witness:
  "(case parse std lenient c2_disk no_ctx ''C2'' new_engine of
      ((tm, err), s') \<Rightarrow>
        err = None \<and>
        map_option tfuncs tm = Some [(''hasAnyBlock'', HasAnyBlock 0), (''hasBlock'', HasBlock 0)] \<and>
        map_of (CachedRelation s') ''/t/C2.html'' = Some 0 \<and>
        Blocks (Tpl0 (heap s' ! 0)) = {''x''} \<and>
        call_func (heap s') (HasBlock 0) [''x''] = Some True \<and>
        call_func (heap s') (HasBlock 0) [''x'', ''o''] = Some False \<and>
        call_func (heap s') (HasAnyBlock 0) [''o'', ''x''] = Some True \<and>
        call_func (heap s') (HasAnyBlock 0) [''o''] = Some False) \<and>
   (\<exists>a. map_of (tfuncs (the (fst (fst (parse std lenient c2_disk no_ctx ''C2'' new_engine)))))
           ''hasBlock'' = Some (HasBlock a) \<and>
        map_of (CachedRelation (snd (parse std lenient c2_disk no_ctx ''C2'' new_engine)))
           (TmplPath std (''C2'' @ Ext std)) = Some a)"
proof -
  let ?p = "parse std lenient c2_disk no_ctx ''C2'' new_engine"
  have ev: "case ?p of
      ((tm, err), s') \<Rightarrow>
        err = None \<and>
        map_option tfuncs tm = Some [(''hasAnyBlock'', HasAnyBlock 0), (''hasBlock'', HasBlock 0)] \<and>
        map_of (CachedRelation s') ''/t/C2.html'' = Some 0 \<and>
        Blocks (Tpl0 (heap s' ! 0)) = {''x''} \<and>
        call_func (heap s') (HasBlock 0) [''x''] = Some True \<and>
        call_func (heap s') (HasBlock 0) [''x'', ''o''] = Some False \<and>
        call_func (heap s') (HasAnyBlock 0) [''o'', ''x''] = Some True \<and>
        call_func (heap s') (HasAnyBlock 0) [''o''] = Some False"
    by code_simp
  obtain tm err s' where p: "?p = ((tm, err), s')" by (cases ?p) auto
  with ev obtain t where t: "tm = Some t" and e: "err = None" by auto
  from block_helpers_bound [of std lenient c2_disk no_ctx "''C2''" new_engine t err s'] p t e
  have "\<exists>a. map_of (tfuncs t) ''hasBlock'' = Some (HasBlock a) \<and>
             map_of (CachedRelation s') (TmplPath std (''C2'' @ Ext std)) = Some a"
    by auto
  with p t have "\<exists>a. map_of (tfuncs (the (fst (fst ?p)))) ''hasBlock'' = Some (HasBlock a) \<and>
        map_of (CachedRelation (snd ?p)) (TmplPath std (''C2'' @ Ext std)) = Some a"
    by simp
  with ev show ?thesis by blast
qed


section \<open>Unreadable files\<close>

text \<open>
  For a name that is not cached and whose file cannot be read, \<open>parse\<close> returns the read
  error together with the tree of the error text, or with \<open>nil\<close> when the evaluator
  rejects that text; \<open>Fetch\<close> drops the error and executes the tree.
\<close>

lemma Fetch_unreadable:
  assumes "cache_hit s (TmplPath self (name @ Ext self)) = None"
    and "RawContent self src (TmplPath self (name @ Ext self)) = Inl e"
    and "t0 = bindFuncs (NewTemplate (CleanTemplateName self (TmplPath self (name @ Ext self))))
                (setFunc (fst (rel_of (TmplPath self (name @ Ext self)) s)) (callerFuncs self c))"
  shows "fst (Fetch self ev src c name vals s) =
           (if tplParse ev t0 e = None
            then Returned (execute ev (heap (snd (rel_of (TmplPath self (name @ Ext self)) s)))
                             (t0\<lparr>tbody := e\<rparr>) vals)
            else Panicked)"
  using parse_unreadable [OF assms(1,2), of ev c] assms(3)
  by (auto simp: Fetch_def diag_def Parse_def new_tree_def split: option.splits)


text \<open>
  Claim C4 says that \<open>Fetch\<close> on an unreadable file returns a text with the path and the
  error and never panics.  For the name \<open>{{\<close> the error text of the missing file,
  \<open>open /t/{{.html: no such file or directory\<close>, is itself not a template: \<open>parse\<close>
  returns \<open>nil\<close> with the error, and \<open>Fetch\<close>, which ignores the error, calls
  \<open>tmpl.Name()\<close> on \<open>nil\<close> and panics.
\<close>

theorem fetch_panics_on_rejected_diagnostic:
  "fst (parse std strict (disk []) no_ctx ''{{'' new_engine) =
     (None, Some ''open /t/{{.html: no such file or directory'') \<and>
   fst (Fetch std strict (disk []) no_ctx ''{{'' [] new_engine) = Panicked"
  by code_simp


section \<open>Errors during compilation\<close>

text \<open>
  Claim C5, as the specification words it: \<open>Render\<close> on a template that fails to load or
  to parse writes the diagnostic and returns no error.  Here \<open>x\<close> has no file and the
  evaluator rejects \<open>b\<close>: \<open>parse\<close> builds the diagnostic tree, but \<open>Render\<close> returns the
  error to its caller and writes nothing.
\<close>

theorem render_propagates_counterexample:
  "map_option tbody (fst (fst (parse std lenient (disk []) no_ctx ''x'' new_engine))) =
     Some ''open /t/x.html: no such file or directory'' \<and>
   fst (Render std lenient (disk []) no_ctx ''x'' [] new_engine) =
     Returned (Some ''open /t/x.html: no such file or directory'', []) \<and>
   map_option tbody (fst (fst (parse std strict err_disk no_ctx ''b'' new_engine))) =
     Some ''Parse /t/b.html err: unclosed action'' \<and>
   fst (Render std strict err_disk no_ctx ''b'' [] new_engine) =
     Returned (Some ''unclosed action'', [])"
  by code_simp

text \<open>
  Claim C5, amended.  On a name that is not cached: when the file of the name or a
  layout of its chain cannot be read, or the evaluator rejects the composed document,
  \<open>Render\<close> returns the error to its caller and writes nothing; and when the evaluator
  accepts the diagnostic text (the error text, respectively \<open>Parse <path> err: <error>\<close>),
  that text is the tree which \<open>parse\<close> returns together with the error, and \<open>Fetch\<close>
  returns what executing this tree gives.  An Include tag whose file is not in the pool
  and cannot be read makes \<open>ContainsSubTpl\<close> return the text
  \<open>RenderTemplate <path> read err: <error>\<close> in place of the content it was expanding;
  when the document has no Extend tag, its first Include tag names such a file and the
  evaluator accepts that text (as \<open>ContainsFunctionResult\<close> leaves it), the text is the
  tree that \<open>parse\<close> returns, without error, and \<open>Render\<close> writes what executing it gives
  and returns what the execution returns.
\<close>

theorem errors_become_diagnostics:
  assumes "cache_hit s (TmplPath self (name @ Ext self)) = None"
    and "t0 = new_tree self c name s"
    and "s' = snd (parse self ev src c name s)"
  shows
   "(RawContent self src (TmplPath self (name @ Ext self)) = Inl e \<longrightarrow>
       fst (Render self ev src c name vals s) = Returned (Some e, []) \<and>
       (tplParse ev t0 e = None \<longrightarrow>
          fst (parse self ev src c name s) = (Some (t0\<lparr>tbody := e\<rparr>), Some e) \<and>
          fst (Fetch self ev src c name vals s) =
            Returned (execute ev (heap s') (t0\<lparr>tbody := e\<rparr>) vals))) \<and>
    (RawContent self src (TmplPath self (name @ Ext self)) = Inr content \<and>
     fst (chain_of self src name content s) = Inl e \<longrightarrow>
       fst (Render self ev src c name vals s) = Returned (Some e, []) \<and>
       (tplParse ev t0 e = None \<longrightarrow>
          fst (parse self ev src c name s) = (Some (t0\<lparr>tbody := e\<rparr>), Some e) \<and>
          fst (Fetch self ev src c name vals s) =
            Returned (execute ev (heap s') (t0\<lparr>tbody := e\<rparr>) vals))) \<and>
    (RawContent self src (TmplPath self (name @ Ext self)) = Inr content \<and>
     chain_of self src name content s = (Inr (body, subcs, extcs), st) \<and>
     tplParse ev t0 (composed self src c name body subcs st) = Some e \<longrightarrow>
       fst (Render self ev src c name vals s) = Returned (Some e, []) \<and>
       (tplParse ev t0 (''Parse '' @ TmplPath self (name @ Ext self) @ '' err: '' @ e) = None \<longrightarrow>
          fst (parse self ev src c name s) =
            (Some (t0\<lparr>tbody := ''Parse '' @ TmplPath self (name @ Ext self) @ '' err: '' @ e\<rparr>),
             Some e) \<and>
          fst (Fetch self ev src c name vals s) =
            Returned (execute ev (heap s')
               (t0\<lparr>tbody := ''Parse '' @ TmplPath self (name @ Ext self) @ '' err: '' @ e\<rparr>) vals))) \<and>
    (map_of pl (inc_file self v) = None \<and> RawContent self src (inc_file self v) = Inl e \<longrightarrow>
       inc_loop self src (v # vs) cont pl rd =
         (''RenderTemplate '' @ inc_file self v @ '' read err: '' @ e, pl, rd @ [inc_file self v])) \<and>
    (RawContent self src (TmplPath self (name @ Ext self)) = Inr content \<and>
     FindStartSubmatch (extTagRegex self) content = [] \<and>
     FindAllStringSubmatch (incTagRegex self)
       (ReplaceAllStringFunc (rplTagRegex self) content (\<lambda>match. [])) = v # vs \<and>
     RawContent self src (inc_file self v) = Inl e \<and>
     doc = fst (ContainsFunctionResult self c name
                  (''RenderTemplate '' @ inc_file self v @ '' read err: '' @ e) [] (calls s)) \<and>
     tplParse ev t0 doc = None \<longrightarrow>
       fst (parse self ev src c name s) = (Some (t0\<lparr>tbody := doc\<rparr>), None) \<and>
       fst (Render self ev src c name vals s) =
         Returned (snd (tplExecute ev (heap s') (t0\<lparr>tbody := doc\<rparr>) vals),
                   fst (tplExecute ev (heap s') (t0\<lparr>tbody := doc\<rparr>) vals)))"
proof -
  have from_diag: "fst (Render self ev src c name vals s) = Returned (Some e, []) \<and>
       (tplParse ev t0 tx = None \<longrightarrow>
          fst (parse self ev src c name s) = (Some (t0\<lparr>tbody := tx\<rparr>), Some e) \<and>
          fst (Fetch self ev src c name vals s) =
            Returned (execute ev (heap s') (t0\<lparr>tbody := tx\<rparr>) vals))"
    if p: "fst (parse self ev src c name s) = (diag ev t0 tx, Some e)" for tx e
  proof (intro conjI impI)
    from p show "fst (Render self ev src c name vals s) = Returned (Some e, [])"
      by (intro render_of_error) simp
    assume "tplParse ev t0 tx = None"
    with p show r: "fst (parse self ev src c name s) = (Some (t0\<lparr>tbody := tx\<rparr>), Some e)"
      by (simp add: diag_accepted)
    then have "fst (fst (parse self ev src c name s)) = Some (t0\<lparr>tbody := tx\<rparr>)" by simp
    from fetch_of_tree [OF this] assms(3)
    show "fst (Fetch self ev src c name vals s) =
            Returned (execute ev (heap s') (t0\<lparr>tbody := tx\<rparr>) vals)" by simp
  qed
  have 1: "RawContent self src (TmplPath self (name @ Ext self)) = Inl e \<longrightarrow>
       fst (Render self ev src c name vals s) = Returned (Some e, []) \<and>
       (tplParse ev t0 e = None \<longrightarrow>
          fst (parse self ev src c name s) = (Some (t0\<lparr>tbody := e\<rparr>), Some e) \<and>
          fst (Fetch self ev src c name vals s) =
            Returned (execute ev (heap s') (t0\<lparr>tbody := e\<rparr>) vals))"
  proof
    assume "RawContent self src (TmplPath self (name @ Ext self)) = Inl e"
    with parse_unreadable [OF assms(1), of src e ev c] assms(2)
    have "fst (parse self ev src c name s) = (diag ev t0 e, Some e)" by simp
    from from_diag [OF this]
    show "fst (Render self ev src c name vals s) = Returned (Some e, []) \<and>
       (tplParse ev t0 e = None \<longrightarrow>
          fst (parse self ev src c name s) = (Some (t0\<lparr>tbody := e\<rparr>), Some e) \<and>
          fst (Fetch self ev src c name vals s) =
            Returned (execute ev (heap s') (t0\<lparr>tbody := e\<rparr>) vals))" .
  qed
  have 2: "RawContent self src (TmplPath self (name @ Ext self)) = Inr content \<and>
     fst (chain_of self src name content s) = Inl e \<longrightarrow>
       fst (Render self ev src c name vals s) = Returned (Some e, []) \<and>
       (tplParse ev t0 e = None \<longrightarrow>
          fst (parse self ev src c name s) = (Some (t0\<lparr>tbody := e\<rparr>), Some e) \<and>
          fst (Fetch self ev src c name vals s) =
            Returned (execute ev (heap s') (t0\<lparr>tbody := e\<rparr>) vals))"
  proof
    assume "RawContent self src (TmplPath self (name @ Ext self)) = Inr content \<and>
     fst (chain_of self src name content s) = Inl e"
    with parse_layout_unreadable [OF assms(1), of src content e ev c] assms(2)
    have "fst (parse self ev src c name s) = (diag ev t0 e, Some e)" by simp
    from from_diag [OF this]
    show "fst (Render self ev src c name vals s) = Returned (Some e, []) \<and>
       (tplParse ev t0 e = None \<longrightarrow>
          fst (parse self ev src c name s) = (Some (t0\<lparr>tbody := e\<rparr>), Some e) \<and>
          fst (Fetch self ev src c name vals s) =
            Returned (execute ev (heap s') (t0\<lparr>tbody := e\<rparr>) vals))" .
  qed
  have 3: "RawContent self src (TmplPath self (name @ Ext self)) = Inr content \<and>
     chain_of self src name content s = (Inr (body, subcs, extcs), st) \<and>
     tplParse ev t0 (composed self src c name body subcs st) = Some e \<longrightarrow>
       fst (Render self ev src c name vals s) = Returned (Some e, []) \<and>
       (tplParse ev t0 (''Parse '' @ TmplPath self (name @ Ext self) @ '' err: '' @ e) = None \<longrightarrow>
          fst (parse self ev src c name s) =
            (Some (t0\<lparr>tbody := ''Parse '' @ TmplPath self (name @ Ext self) @ '' err: '' @ e\<rparr>),
             Some e) \<and>
          fst (Fetch self ev src c name vals s) =
            Returned (execute ev (heap s')
               (t0\<lparr>tbody := ''Parse '' @ TmplPath self (name @ Ext self) @ '' err: '' @ e\<rparr>) vals))"
  proof
    assume "RawContent self src (TmplPath self (name @ Ext self)) = Inr content \<and>
     chain_of self src name content s = (Inr (body, subcs, extcs), st) \<and>
     tplParse ev t0 (composed self src c name body subcs st) = Some e"
    with parse_rejected [OF assms(1), of src content body subcs extcs st ev c e] assms(2)
    have "fst (parse self ev src c name s) =
        (diag ev t0 (''Parse '' @ TmplPath self (name @ Ext self) @ '' err: '' @ e), Some e)"
      by simp
    from from_diag [OF this]
    show "fst (Render self ev src c name vals s) = Returned (Some e, []) \<and>
       (tplParse ev t0 (''Parse '' @ TmplPath self (name @ Ext self) @ '' err: '' @ e) = None \<longrightarrow>
          fst (parse self ev src c name s) =
            (Some (t0\<lparr>tbody := ''Parse '' @ TmplPath self (name @ Ext self) @ '' err: '' @ e\<rparr>),
             Some e) \<and>
          fst (Fetch self ev src c name vals s) =
            Returned (execute ev (heap s')
               (t0\<lparr>tbody := ''Parse '' @ TmplPath self (name @ Ext self) @ '' err: '' @ e\<rparr>) vals))" .
  qed
  have 4: "map_of pl (inc_file self v) = None \<and> RawContent self src (inc_file self v) = Inl e \<longrightarrow>
       inc_loop self src (v # vs) cont pl rd =
         (''RenderTemplate '' @ inc_file self v @ '' read err: '' @ e, pl, rd @ [inc_file self v])"
    by (simp add: inc_loop_unreadable)
  have 5: "RawContent self src (TmplPath self (name @ Ext self)) = Inr content \<and>
     FindStartSubmatch (extTagRegex self) content = [] \<and>
     FindAllStringSubmatch (incTagRegex self)
       (ReplaceAllStringFunc (rplTagRegex self) content (\<lambda>match. [])) = v # vs \<and>
     RawContent self src (inc_file self v) = Inl e \<and>
     doc = fst (ContainsFunctionResult self c name
                  (''RenderTemplate '' @ inc_file self v @ '' read err: '' @ e) [] (calls s)) \<and>
     tplParse ev t0 doc = None \<longrightarrow>
       fst (parse self ev src c name s) = (Some (t0\<lparr>tbody := doc\<rparr>), None) \<and>
       fst (Render self ev src c name vals s) =
         Returned (snd (tplExecute ev (heap s') (t0\<lparr>tbody := doc\<rparr>) vals),
                   fst (tplExecute ev (heap s') (t0\<lparr>tbody := doc\<rparr>) vals))"
  proof (intro impI conjI)
    assume h: "RawContent self src (TmplPath self (name @ Ext self)) = Inr content \<and>
     FindStartSubmatch (extTagRegex self) content = [] \<and>
     FindAllStringSubmatch (incTagRegex self)
       (ReplaceAllStringFunc (rplTagRegex self) content (\<lambda>match. [])) = v # vs \<and>
     RawContent self src (inc_file self v) = Inl e \<and>
     doc = fst (ContainsFunctionResult self c name
                  (''RenderTemplate '' @ inc_file self v @ '' read err: '' @ e) [] (calls s)) \<and>
     tplParse ev t0 doc = None"
    then have "tplParse ev t0 doc = None" by blast
    then have "tplParse ev (new_tree self c name s) doc = None" unfolding assms(2) .
    with h parse_include_unreadable [OF assms(1), of src content v vs e doc c ev]
    have "fst (parse self ev src c name s) = (Some ((new_tree self c name s)\<lparr>tbody := doc\<rparr>), None)"
      by blast
    then show r: "fst (parse self ev src c name s) = (Some (t0\<lparr>tbody := doc\<rparr>), None)"
      unfolding assms(2) .
    from render_of_tree [OF r] assms(3)
    show "fst (Render self ev src c name vals s) =
         Returned (snd (tplExecute ev (heap s') (t0\<lparr>tbody := doc\<rparr>) vals),
                   fst (tplExecute ev (heap s') (t0\<lparr>tbody := doc\<rparr>) vals))" by simp
  qed
  from 1 2 3 4 5 show ?thesis by (intro conjI)
qed

theorem errors_become_diagnostics_witness:
  "fst (Render std lenient (disk []) no_ctx ''x'' [] new_engine) =
     Returned (Some ''open /t/x.html: no such file or directory'', []) \<and>
   fst (Fetch std lenient (disk []) no_ctx ''x'' [] new_engine) =
     Returned ''open /t/x.html: no such file or directory'' \<and>
   fst (Render std lenient err_disk no_ctx ''c'' [] new_engine) =
     Returned (Some ''open /t/lay.html: no such file or directory'', []) \<and>
   fst (Fetch std lenient err_disk no_ctx ''c'' [] new_engine) =
     Returned ''open /t/lay.html: no such file or directory'' \<and>
   fst (Render std strict err_disk no_ctx ''b'' [] new_engine) =
     Returned (Some ''unclosed action'', []) \<and>
   fst (Fetch std strict err_disk no_ctx ''b'' [] new_engine) =
     Returned ''Parse /t/b.html err: unclosed action'' \<and>
   inc_loop std err_disk [(''{{Include \"nope\"}}'', ''nope'', [])] ''M{{Include \"nope\"}}'' [] [] =
     (''RenderTemplate /t/nope.html read err: open /t/nope.html: no such file or directory'', [],
      [''/t/nope.html'']) \<and>
   fst (Render std lenient err_disk no_ctx ''m'' [] new_engine) =
     Returned (None,
       ''RenderTemplate /t/nope.html read err: open /t/nope.html: no such file or directory'')"
proof -
  let ?ex = "''open /t/x.html: no such file or directory''"
  let ?el = "''open /t/lay.html: no such file or directory''"
  let ?en = "''open /t/nope.html: no such file or directory''"
  let ?cc = "''{{Extend \"lay\"}}x''"
  let ?cb = "''A{{B''"
  let ?cm = "''M{{Include \"nope\"}}''"
  let ?v = "(''{{Include \"nope\"}}'', ''nope'', [])"
  let ?doc = "''RenderTemplate /t/nope.html read err: open /t/nope.html: no such file or directory''"
  have miss: "cache_hit new_engine (TmplPath std (n @ Ext std)) = None" for n
    by (simp add: cache_hit_def new_engine_def)
  have ex: "execute lenient h (t\<lparr>tbody := tx\<rparr>) d = tx"
    and es: "execute strict h (t\<lparr>tbody := tx\<rparr>) d = tx"
    and xl: "tplExecute lenient h (t\<lparr>tbody := tx\<rparr>) d = (tx, None)"
    and al: "tplParse lenient t tx = None" for h t tx d
    by (simp_all add: execute_def lenient_def strict_def)
  have rdx: "RawContent std (disk []) (TmplPath std (''x'' @ Ext std)) = Inl ?ex" by code_simp
  from errors_become_diagnostics [OF miss refl refl, where e = "?ex" and src = "disk []"
      and name = "''x''" and ev = lenient and c = no_ctx and vals = "[]"] rdx al
  have 1: "fst (Render std lenient (disk []) no_ctx ''x'' [] new_engine) = Returned (Some ?ex, [])"
    and 2: "fst (Fetch std lenient (disk []) no_ctx ''x'' [] new_engine) = Returned ?ex"
    by (simp_all add: ex)
  have rdc: "RawContent std err_disk (TmplPath std (''c'' @ Ext std)) = Inr ?cc" by code_simp
  have chc: "fst (chain_of std err_disk ''c'' ?cc new_engine) = Inl ?el" by code_simp
  from errors_become_diagnostics [OF miss refl refl, where e = "?el" and content = "?cc"
      and src = err_disk and name = "''c''" and ev = lenient and c = no_ctx and vals = "[]"]
    rdc chc al
  have 3: "fst (Render std lenient err_disk no_ctx ''c'' [] new_engine) = Returned (Some ?el, [])"
    and 4: "fst (Fetch std lenient err_disk no_ctx ''c'' [] new_engine) = Returned ?el"
    by (simp_all add: ex)
  have rdb: "RawContent std err_disk (TmplPath std (''b'' @ Ext std)) = Inr ?cb" by code_simp
  have "fst (chain_of std err_disk ''b'' ?cb new_engine) = Inr (?cb, [], [])" by code_simp
  then have chb: "chain_of std err_disk ''b'' ?cb new_engine =
      (Inr (?cb, [], []), snd (chain_of std err_disk ''b'' ?cb new_engine))"
    by (simp add: prod_eq_iff)
  have rej: "tplParse strict (new_tree std no_ctx ''b'' new_engine)
      (composed std err_disk no_ctx ''b'' ?cb [] (snd (chain_of std err_disk ''b'' ?cb new_engine)))
      = Some ''unclosed action''" by code_simp
  have acc: "tplParse strict (new_tree std no_ctx ''b'' new_engine)
      (''Parse '' @ TmplPath std (''b'' @ Ext std) @ '' err: '' @ ''unclosed action'') = None"
    by code_simp
  have pth: "''Parse '' @ TmplPath std (''b'' @ Ext std) @ '' err: '' @ ''unclosed action'' =
      ''Parse /t/b.html err: unclosed action''" by code_simp
  from errors_become_diagnostics [OF miss refl refl, where e = "''unclosed action''" and content = "?cb"
      and src = err_disk and name = "''b''" and ev = strict and c = no_ctx and body = "?cb"
      and subcs = "[]" and extcs = "[]" and st = "snd (chain_of std err_disk ''b'' ?cb new_engine)"
      and vals = "[]"]
    rdb chb rej acc
  have 5: "fst (Render std strict err_disk no_ctx ''b'' [] new_engine) =
             Returned (Some ''unclosed action'', [])"
    and 6: "fst (Fetch std strict err_disk no_ctx ''b'' [] new_engine) =
             Returned (''Parse '' @ TmplPath std (''b'' @ Ext std) @ '' err: '' @ ''unclosed action'')"
    by (simp_all only: es simp_thms)
  have rdm: "RawContent std err_disk (TmplPath std (''m'' @ Ext std)) = Inr ?cm" by code_simp
  have noext: "FindStartSubmatch (extTagRegex std) ?cm = []" by code_simp
  have incs: "FindAllStringSubmatch (incTagRegex std)
       (ReplaceAllStringFunc (rplTagRegex std) ?cm (\<lambda>match. [])) = ?v # []" by code_simp
  have rdn: "RawContent std err_disk (inc_file std ?v) = Inl ?en" by code_simp
  have doc: "?doc = fst (ContainsFunctionResult std no_ctx ''m''
                  (''RenderTemplate '' @ inc_file std ?v @ '' read err: '' @ ?en) [] (calls new_engine))"
    by code_simp
  have dtext: "''RenderTemplate '' @ inc_file std ?v @ '' read err: '' @ ?en = ?doc"
    and fl: "inc_file std ?v = ''/t/nope.html''" by code_simp+
  note thi = errors_become_diagnostics [OF miss refl refl, where e = "?en" and content = "?cm"
      and src = err_disk and name = "''m''" and ev = lenient and c = no_ctx
      and v = "?v" and vs = "[]" and doc = "?doc" and vals = "[]" and pl = "[]" and rd = "[]"
      and cont = "?cm"]
  from thi rdn have 7: "inc_loop std err_disk [?v] ?cm [] [] = (?doc, [], [''/t/nope.html''])"
    by (simp add: dtext fl)
  from thi rdm noext incs rdn doc al
  have 8: "fst (Render std lenient err_disk no_ctx ''m'' [] new_engine) = Returned (None, ?doc)"
    by (simp add: xl)
  from 1 2 3 4 5 6 7 8 pth show ?thesis by simp
qed

end
